theory Spec2Isabelle
  imports Main "HOL-Library.Word"
begin

unbundle bit_operations_syntax

section \<open>The receiver of \<^verbatim>\<open>src/dist/connector/Receiver.js\<close>\<close>

text \<open>
  The theory embeds the class \<^verbatim>\<open>Receiver\<close>: the length decoder \<^verbatim>\<open>decodeLength\<close>, the
  frame loop \<^verbatim>\<open>processRawData\<close>, the sentence pump \<^verbatim>\<open>processSentence\<close> and the tag
  dispatcher \<^verbatim>\<open>sendTagData\<close>. A receiver object is a record that every method takes
  and returns. What the receiver does to the outside world (calling a registered callback,
  emitting on the socket) is appended to the field \<open>effects\<close>, in order. A callback
  is taken to return or throw without calling back into the receiver.
\<close>

subsection \<open>JavaScript numbers as the decoder meets them\<close>

text \<open>
  A \<^verbatim>\<open>Buffer\<close> is a list of bytes. Reading it past its end gives \<^verbatim>\<open>undefined\<close>, and
  arithmetic on \<^verbatim>\<open>undefined\<close> gives \<^verbatim>\<open>NaN\<close>; both reach the field \<^verbatim>\<open>dataLength\<close>, so
  the model of a number keeps them. Every number that occurs is an integer far below
  \<open>2^53\<close>, where the doubles of JavaScript are exact.
\<close>

type_synonym byte = "8 word"

datatype jsval = Num int | NaN | Undefined

text \<open>\<^verbatim>\<open>data[i]\<close>\<close>

definition at_index :: "byte list \<Rightarrow> nat \<Rightarrow> jsval" where
  "at_index data i = (if i < length data then Num (uint (data ! i)) else Undefined)"

text \<open>The conversion to a signed 32-bit integer that \<^verbatim>\<open>&\<close> and \<^verbatim>\<open><<\<close> apply to their operands.\<close>

definition wrap32 :: "int \<Rightarrow> int" where
  "wrap32 n = (n + 2 ^ 31) mod 2 ^ 32 - 2 ^ 31"

fun ToInt32 :: "jsval \<Rightarrow> int" where
  "ToInt32 (Num n) = wrap32 n"
| "ToInt32 NaN = 0"
| "ToInt32 Undefined = 0"

definition js_band :: "jsval \<Rightarrow> int \<Rightarrow> jsval" where
  "js_band x k = Num (ToInt32 x AND wrap32 k)"

definition js_shl :: "jsval \<Rightarrow> nat \<Rightarrow> jsval" where
  "js_shl x k = Num (wrap32 (ToInt32 x * 2 ^ k))"

fun js_add :: "jsval \<Rightarrow> jsval \<Rightarrow> jsval" where
  "js_add (Num a) (Num b) = Num (a + b)"
| "js_add _ _ = NaN"

text \<open>Truthiness of a number, and the comparisons \<^verbatim>\<open>></\<close>, \<^verbatim>\<open><=\<close>, \<^verbatim>\<open>===\<close> against an integer.\<close>

fun js_truthy :: "jsval \<Rightarrow> bool" where
  "js_truthy (Num n) = (n \<noteq> 0)"
| "js_truthy NaN = False"
| "js_truthy Undefined = False"

fun js_gt :: "jsval \<Rightarrow> int \<Rightarrow> bool" where
  "js_gt (Num a) b = (a > b)"
| "js_gt NaN b = False"
| "js_gt Undefined b = False"

fun js_int_le :: "int \<Rightarrow> jsval \<Rightarrow> bool" where
  "js_int_le a (Num b) = (a \<le> b)"
| "js_int_le a NaN = False"
| "js_int_le a Undefined = False"

fun js_seq :: "jsval \<Rightarrow> int \<Rightarrow> bool" where
  "js_seq (Num a) b = (a = b)"
| "js_seq NaN b = False"
| "js_seq Undefined b = False"

text \<open>\<^verbatim>\<open>x -= n\<close> for an integer \<open>n\<close>.\<close>

fun js_sub :: "jsval \<Rightarrow> int \<Rightarrow> jsval" where
  "js_sub (Num a) b = Num (a - b)"
| "js_sub NaN b = NaN"
| "js_sub Undefined b = NaN"

text \<open>
  The upper bound of \<^verbatim>\<open>data.slice(0, n)\<close> and the lower bound of \<^verbatim>\<open>data.slice(n)\<close>;
  \<^verbatim>\<open>slice\<close> reads \<^verbatim>\<open>NaN\<close> and \<^verbatim>\<open>undefined\<close> as 0 and clamps a negative bound, counted
  from the end, at the start.
\<close>

definition slice_bound :: "jsval \<Rightarrow> nat \<Rightarrow> nat" where
  "slice_bound x len =
     (case x of Num n \<Rightarrow> if n < 0 then nat (max 0 (int len + n)) else min (nat n) len
      | NaN \<Rightarrow> 0
      | Undefined \<Rightarrow> 0)"

subsection \<open>decodeLength\<close>

definition decodeLength :: "byte list \<Rightarrow> nat \<times> jsval" where
  "decodeLength data =
     (let b = at_index data 0 in
      if js_truthy (js_band b 128) then
        if js_band b 192 = Num 128 then
          (2, js_add (js_shl (js_band b 63) 8) (at_index data 1))
        else if js_band b 224 = Num 192 then
          (let len = js_add (js_shl (js_band b 31) 8) (at_index data 1) in
           (3, js_add (js_shl len 8) (at_index data 2)))
        else if js_band b 240 = Num 224 then
          (let len = js_add (js_shl (js_band b 15) 8) (at_index data 1);
               len = js_add (js_shl len 8) (at_index data 2) in
           (4, js_add (js_shl len 8) (at_index data 3)))
        else
          (let len = at_index data 1;
               len = js_add (js_shl len 8) (at_index data 2);
               len = js_add (js_shl len 8) (at_index data 3) in
           (5, js_add (js_shl len 8) (at_index data 4)))
      else (1, b))"

subsection \<open>The receiver object\<close>

text \<open>
  \<^verbatim>\<open>iconv.decode(data, "win1252")\<close> turns every byte into one character. A \<^typ>\<open>char\<close> of
  the model stands for the Windows-1252 character that the byte encodes; on ASCII, which
  is all the receiver ever compares a sentence with, it is the character itself.
\<close>

definition decode_win1252 :: "byte list \<Rightarrow> string" where
  "decode_win1252 data = map (\<lambda>b. char_of (unat b)) data"

record ISentence =
  sentence :: string
  hadMore :: bool

text \<open>
  A callback is known by what it does when it is called on a packet: it returns, or it
  throws an error.
\<close>

datatype outcome = Returned | Threw string

type_synonym callback = "string list \<Rightarrow> outcome"

text \<open>
  What the receiver does to its surroundings: it calls the callback registered for a tag on
  a packet, and it emits an event on the socket. What it writes to its \<^verbatim>\<open>error\<close> debug
  channel is kept apart, in \<open>errorLog\<close>.
\<close>

datatype effect =
    Called string "string list"
  | Emitted string

datatype logged =
    CallbackError string string
  | UnregisteredTag string

record receiver =
  tags :: "string \<rightharpoonup> callback"
  dataLength :: jsval
  sentencePipe :: "ISentence list"
  processingSentencePipe :: bool
  currentLine :: string
  currentReply :: string
  currentTag :: "string option"
  currentPacket :: "string list"
  lengthDescriptorSegment :: "byte list option"
  effects :: "effect list"
  errorLog :: "logged list"

definition Receiver :: receiver where
  "Receiver =
     \<lparr>tags = Map.empty, dataLength = Num 0, sentencePipe = [],
      processingSentencePipe = False, currentLine = [], currentReply = [],
      currentTag = None, currentPacket = [], lengthDescriptorSegment = None,
      effects = [], errorLog = []\<rparr>"

definition read :: "string \<Rightarrow> callback \<Rightarrow> receiver \<Rightarrow> receiver" where
  "read tag cb s = s\<lparr>tags := (tags s)(tag \<mapsto> cb)\<rparr>"

definition stop :: "string \<Rightarrow> receiver \<Rightarrow> receiver" where
  "stop tag s = s\<lparr>tags := (tags s)(tag := None)\<rparr>"

subsection \<open>sendTagData and cleanUp\<close>

definition cleanUp :: "receiver \<Rightarrow> receiver" where
  "cleanUp s = s\<lparr>currentPacket := [], currentTag := None, currentReply := []\<rparr>"

text \<open>
  The \<^verbatim>\<open>try\<close> block calls the callback on the current packet; the \<^verbatim>\<open>catch\<close> block logs
  what the callback threw, and nothing is thrown further. \<open>caught\<close> is what the
  \<^verbatim>\<open>catch\<close> block writes to the log: nothing when the callback returns.
\<close>

definition caught :: "string \<Rightarrow> outcome \<Rightarrow> logged list" where
  "caught tag r = (case r of Returned \<Rightarrow> [] | Threw err \<Rightarrow> [CallbackError tag err])"

definition sendTagData :: "receiver \<Rightarrow> string \<Rightarrow> receiver" where
  "sendTagData s tag =
     cleanUp
       (case tags s tag of
          Some cb \<Rightarrow>
            s\<lparr>effects := effects s @ [Called tag (currentPacket s)],
              errorLog := errorLog s @ caught tag (cb (currentPacket s))\<rparr>
        | None \<Rightarrow> s\<lparr>errorLog := errorLog s @ [UnregisteredTag tag]\<rparr>)"

subsection \<open>processSentence\<close>

text \<open>\<^verbatim>\<open>if (this.currentTag)\<close>: \<^verbatim>\<open>null\<close> and the empty string are falsy.\<close>

definition open_tag :: "receiver \<Rightarrow> string option" where
  "open_tag s = (case currentTag s of None \<Rightarrow> None | Some t \<Rightarrow> if t = [] then None else Some t)"

definition send_if_open :: "receiver \<Rightarrow> receiver" where
  "send_if_open s = (case open_tag s of None \<Rightarrow> s | Some t \<Rightarrow> sendTagData s t)"

text \<open>The three-way classification of a line: tag assignment, reply marker, other word.\<close>

definition classify :: "ISentence \<Rightarrow> receiver \<Rightarrow> receiver" where
  "classify line s =
     (if take 5 (sentence line) = ''.tag='' then
        s\<lparr>currentTag := Some (drop 5 (sentence line))\<rparr>
      else if take 1 (sentence line) = ''!'' then
        (let s1 = send_if_open s in
         s1\<lparr>currentPacket := currentPacket s1 @ [sentence line],
            currentReply := sentence line\<rparr>)
      else s\<lparr>currentPacket := currentPacket s @ [sentence line]\<rparr>)"

function process :: "receiver \<Rightarrow> receiver" where
  "process s =
     (case sentencePipe s of
        [] \<Rightarrow> s\<lparr>processingSentencePipe := False\<rparr>
      | line # rest \<Rightarrow>
          (let s1 = s\<lparr>sentencePipe := rest\<rparr> in
           if sentence line = ''!empty'' then
             (case open_tag s1 of
                Some t \<Rightarrow>
                  (sendTagData (s1\<lparr>currentPacket := currentPacket s1 @ [''!done'']\<rparr>) t)
                    \<lparr>processingSentencePipe := False\<rparr>
              | None \<Rightarrow> s1\<lparr>processingSentencePipe := False\<rparr>)
           else if \<not> hadMore line \<and> currentReply s1 = ''!fatal'' then
             s1\<lparr>effects := effects s1 @ [Emitted ''fatal''],
                processingSentencePipe := False\<rparr>
           else
             (let s2 = classify line s1 in
              if sentencePipe s2 = [] \<and> js_seq (dataLength s2) 0 then
                (if \<not> hadMore line then send_if_open s2 else s2)
                  \<lparr>processingSentencePipe := False\<rparr>
              else process s2)))"
  by pat_completeness auto
termination
  by (relation "measure (\<lambda>s. length (sentencePipe s))")
     (auto simp: classify_def send_if_open_def sendTagData_def cleanUp_def Let_def
           split: option.splits outcome.splits)

definition processSentence :: "receiver \<Rightarrow> receiver" where
  "processSentence s =
     (if processingSentencePipe s then s
      else process (s\<lparr>processingSentencePipe := True\<rparr>))"

subsection \<open>processRawData\<close>

text \<open>
  After a length descriptor is consumed: a declared length of 1 when the rest of the chunk
  is exactly one null byte is taken as the end of a sentence.
\<close>

definition null_quirk :: "receiver \<Rightarrow> byte list \<Rightarrow> receiver \<times> byte list" where
  "null_quirk s data =
     (if js_seq (dataLength s) 1 \<and> data = [0] then (s\<lparr>dataLength := Num 0\<rparr>, drop 1 data)
      else (s, data))"

definition push_sentence :: "string \<Rightarrow> bool \<Rightarrow> receiver \<Rightarrow> receiver" where
  "push_sentence line had s =
     s\<lparr>sentencePipe := sentencePipe s @ [\<lparr>sentence = line, hadMore = had\<rparr>]\<rparr>"

text \<open>
  The three arms of the body of the \<^verbatim>\<open>while\<close> loop. \<open>finish_word\<close> is the arm that ends in
  \<^verbatim>\<open>break\<close> (the chunk does not reach beyond the word in progress), \<open>next_word\<close> the arm
  that completes a word and reads the descriptor behind it, \<open>read_length\<close> the arm taken
  when no word is in progress.
\<close>

definition finish_word :: "receiver \<Rightarrow> byte list \<Rightarrow> receiver" where
  "finish_word s data =
     (let s1 = s\<lparr>dataLength := js_sub (dataLength s) (int (length data))\<rparr>;
          s2 = s1\<lparr>currentLine := currentLine s1 @ decode_win1252 data\<rparr> in
      if js_seq (dataLength s2) 0 then
        (let s3 = push_sentence (currentLine s2)
                    (\<not> js_seq (dataLength s2) (int (length data))) s2;
             s4 = processSentence s3 in
         s4\<lparr>currentLine := []\<rparr>)
      else s2)"

definition next_word :: "receiver \<Rightarrow> byte list \<Rightarrow> receiver \<times> byte list" where
  "next_word s data =
     (let tmpBuffer = take (slice_bound (dataLength s) (length data)) data;
          line = currentLine s @ decode_win1252 tmpBuffer;
          s1 = s\<lparr>currentLine := []\<rparr>;
          data1 = drop (slice_bound (dataLength s1) (length data)) data;
          (descriptor_length, len) = decodeLength data1;
          s2 = (if descriptor_length > length data1
                then s1\<lparr>lengthDescriptorSegment := Some data1\<rparr> else s1);
          s3 = s2\<lparr>dataLength := len\<rparr>;
          data2 = drop descriptor_length data1;
          (s4, data3) = null_quirk s3 data2;
          s5 = push_sentence line (length data3 > 0) s4;
          s6 = processSentence s5 in
      (s6, data3))"

definition read_length :: "receiver \<Rightarrow> byte list \<Rightarrow> receiver \<times> byte list" where
  "read_length s data =
     (let (descriptor_length, len) = decodeLength data;
          s1 = s\<lparr>dataLength := len\<rparr>;
          data1 = drop descriptor_length data in
      null_quirk s1 data1)"

function loop :: "receiver \<Rightarrow> byte list \<Rightarrow> receiver" where
  "loop s data =
     (if \<not> length data > 0 then s
      else if js_gt (dataLength s) 0 then
        if js_int_le (int (length data)) (dataLength s) then finish_word s data
        else (case next_word s data of (s', data') \<Rightarrow> loop s' data')
      else (case read_length s data of (s', data') \<Rightarrow> loop s' data'))"
  by pat_completeness auto
termination
proof -
  have next_shorter: "length (snd (next_word s data)) < length data"
    if "0 < length data" and "js_gt (dataLength s) 0"
    for s :: receiver and data :: "byte list"
    using that
    by (cases "dataLength s")
       (auto simp: next_word_def null_quirk_def Let_def slice_bound_def
             split: if_splits prod.splits)
  have width_pos: "0 < w" if "decodeLength data = (w, len)" for data w len
    using that by (auto simp: decodeLength_def Let_def split: if_splits)
  have read_shorter: "length (snd (read_length s data)) < length data"
    if "0 < length data" for s :: receiver and data :: "byte list"
    using that
    by (auto simp: read_length_def null_quirk_def Let_def
             split: if_splits prod.splits dest!: width_pos)
  show ?thesis
    by (relation "measure (\<lambda>(s, data). length data)")
       (auto simp: case_prod_beta next_shorter read_shorter)
qed

definition processRawData :: "receiver \<Rightarrow> byte list \<Rightarrow> receiver" where
  "processRawData s data =
     (case lengthDescriptorSegment s of
        Some seg \<Rightarrow> loop (s\<lparr>lengthDescriptorSegment := None\<rparr>) (seg @ data)
      | None \<Rightarrow> loop s data)"

subsection \<open>The wire format and the feeding of chunks\<close>

text \<open>
  Modelled from the spec: the sender that encodes a length descriptor is not part of the
  sources. The spec gives five descriptor classes by the leading bits of the first byte
  (\<open>0xxxxxxx\<close>, \<open>10xxxxxx\<close>, \<open>110xxxxx\<close>, \<open>1110xxxx\<close>, \<open>1111xxxx\<close>) with the
  length in the remaining bits, big-endian; the five-byte class holds the length in the
  four bytes after the first. \<open>encodeLength\<close> writes a length in the narrowest class that
  holds it.
\<close>

definition encodeLength :: "nat \<Rightarrow> byte list" where
  "encodeLength n =
     (if n < 0x80 then [of_nat n]
      else if n < 0x4000 then [of_nat (0x80 + n div 2 ^ 8), of_nat n]
      else if n < 0x200000 then
        [of_nat (0xC0 + n div 2 ^ 16), of_nat (n div 2 ^ 8), of_nat n]
      else if n < 0x10000000 then
        [of_nat (0xE0 + n div 2 ^ 24), of_nat (n div 2 ^ 16), of_nat (n div 2 ^ 8), of_nat n]
      else
        [0xF0, of_nat (n div 2 ^ 24), of_nat (n div 2 ^ 16), of_nat (n div 2 ^ 8), of_nat n])"

text \<open>The descriptor width that the first byte of a descriptor announces, by the same classes.\<close>

definition descriptor_width :: "byte \<Rightarrow> nat" where
  "descriptor_width b =
     (if b < 0x80 then 1 else if b < 0xC0 then 2 else if b < 0xE0 then 3
      else if b < 0xF0 then 4 else 5)"

text \<open>A word on the wire: its length descriptor, then its bytes. The empty word ends a sentence.\<close>

definition bytes_of :: "string \<Rightarrow> byte list" where
  "bytes_of w = map of_char w"

definition encodeWord :: "string \<Rightarrow> byte list" where
  "encodeWord w = encodeLength (length w) @ bytes_of w"

definition encodeWords :: "string list \<Rightarrow> byte list" where
  "encodeWords ws = concat (map encodeWord ws)"

text \<open>The socket hands its chunks to \<^verbatim>\<open>processRawData\<close> one after the other.\<close>

definition feed :: "receiver \<Rightarrow> byte list list \<Rightarrow> receiver" where
  "feed s chunks = foldl processRawData s chunks"

text \<open>
  The calls that reach a receiver from outside are \<^verbatim>\<open>read\<close>, \<^verbatim>\<open>stop\<close> and
  \<^verbatim>\<open>processRawData\<close>; \<open>run\<close> is the receiver that a sequence of them leaves behind,
  beginning with a new one.
\<close>

datatype call = Read string callback | Stop string | Data "byte list"

fun perform :: "receiver \<Rightarrow> call \<Rightarrow> receiver" where
  "perform s (Read tag cb) = read tag cb s"
| "perform s (Stop tag) = stop tag s"
| "perform s (Data chunk) = processRawData s chunk"

definition run :: "call list \<Rightarrow> receiver" where
  "run calls = foldl perform Receiver calls"

declare loop.simps [simp del] process.simps [simp del]

subsection \<open>Observations and examples\<close>

text \<open>The events emitted on the socket, in order.\<close>

definition emitted :: "effect list \<Rightarrow> string list" where
  "emitted es = concat (map (\<lambda>e. case e of Emitted x \<Rightarrow> [x] | Called t p \<Rightarrow> []) es)"

text \<open>No sentence is waiting in the queue and no drain is in progress.\<close>

definition drained :: "receiver \<Rightarrow> bool" where
  "drained s = (sentencePipe s = [] \<and> \<not> processingSentencePipe s)"

text \<open>
  The stream of the end-to-end example of the spec: the words \<^verbatim>\<open>.tag=1\<close>, \<^verbatim>\<open>!re\<close>,
  \<^verbatim>\<open>name=alice\<close>, the empty word, \<^verbatim>\<open>.tag=1\<close>, \<^verbatim>\<open>!done\<close>, the empty word; and a receiver
  with a callback for tag 1 that is fed the stream cut into two fragments after \<open>k\<close> bytes.
\<close>

definition tag1_stream :: "byte list" where
  "tag1_stream =
     encodeWords [''.tag=1'', ''!re'', ''name=alice'', [], ''.tag=1'', ''!done'', []]"

definition two_fragments :: "callback \<Rightarrow> nat \<Rightarrow> receiver" where
  "two_fragments cb k =
     feed (read ''1'' cb Receiver) [take k tag1_stream, drop k tag1_stream]"

definition tag1_outcome :: "receiver \<Rightarrow> bool" where
  "tag1_outcome s =
     (effects s = [Called ''1'' [], Called ''1'' [''!re'', ''name=alice'']] \<and>
      currentPacket s = [''!done''])"

text \<open>
  A receiver that has read the reply marker \<^verbatim>\<open>!fatal\<close> and the length descriptor of a
  word of three bytes behind it; and a receiver with a callback for tag 1 that has read the
  word \<^verbatim>\<open>.tag=1\<close>.
\<close>

definition after_fatal_marker :: receiver where
  "after_fatal_marker = processRawData Receiver (encodeWord ''!fatal'' @ encodeLength 3)"

definition tag1_open :: receiver where
  "tag1_open = run [Read ''1'' (\<lambda>p. Returned), Data (encodeWord ''.tag=1'')]"

text \<open>
  The reply \<^verbatim>\<open>!empty\<close> under tag 7, on the wire in two ways: as one sentence of the words
  \<^verbatim>\<open>.tag=7\<close> and \<^verbatim>\<open>!empty\<close> with the terminator behind them, and with a terminator behind
  each of the two words.
\<close>

definition tag7_sentence :: "byte list" where
  "tag7_sentence = encodeWords [''.tag=7'', ''!empty'', []]"

definition tag7_words :: "byte list" where
  "tag7_words = encodeWords [''.tag=7'', [], ''!empty'', []]"

text \<open>
  A receiver with a callback for tag 7 that has been fed the first \<open>k\<close> bytes of one of
  these streams: of the sentence, as one chunk; of the terminated words, with a chunk
  boundary behind the word \<^verbatim>\<open>.tag=7\<close>; and of the terminated words, with the first terminator
  as the end of the first chunk. \<open>step\<close> says that the chunk from byte \<open>k\<close> to byte \<open>j\<close>
  of a stream leads from the receiver at \<open>k\<close> to the receiver at \<open>j\<close>, and \<open>crossing\<close> that
  a chunk that ends with the first terminator leads to the third kind of receiver.
\<close>

definition seen_sentence :: "callback \<Rightarrow> nat \<Rightarrow> receiver" where
  "seen_sentence cb k = processRawData (read ''7'' cb Receiver) (take k tag7_sentence)"

definition seen_words :: "callback \<Rightarrow> nat \<Rightarrow> receiver" where
  "seen_words cb k =
     feed (read ''7'' cb Receiver) [take (min k 7) tag7_words, take (k - 7) (drop 7 tag7_words)]"

definition seen_flushed :: "callback \<Rightarrow> nat \<Rightarrow> receiver" where
  "seen_flushed cb k =
     feed (read ''7'' cb Receiver) [take 8 tag7_words, take (k - 8) (drop 8 tag7_words)]"

definition step :: "(nat \<Rightarrow> receiver) \<Rightarrow> byte list \<Rightarrow> nat \<Rightarrow> nat \<Rightarrow> bool" where
  "step st w k j = (processRawData (st k) (take (j - k) (drop k w)) = st j)"

definition crossing :: "callback \<Rightarrow> nat \<Rightarrow> bool" where
  "crossing cb k =
     (processRawData (seen_words cb k) (take (8 - k) (drop k tag7_words)) = seen_flushed cb 8)"

text \<open>Some chunk of a list of chunks ends after exactly \<open>n\<close> bytes of the whole.\<close>

fun cut_at :: "nat \<Rightarrow> byte list list \<Rightarrow> bool" where
  "cut_at n [] = (n = 0)"
| "cut_at n (c # cs) = (n = 0 \<or> (length c \<le> n \<and> cut_at (n - length c) cs))"

text \<open>
  A word is in progress and part of it has been read; and the weaker condition that a line
  is only kept while a word is in progress. \<open>payload_cuts\<close> says of a list of chunks that
  each of them but the last leaves the receiver with a word in progress, part of it read:
  every chunk boundary lies inside the bytes of a word.
\<close>

definition mid_word :: "receiver \<Rightarrow> bool" where
  "mid_word s = (js_gt (dataLength s) 0 \<and> currentLine s \<noteq> [])"

definition line_consistent :: "receiver \<Rightarrow> bool" where
  "line_consistent s = (js_gt (dataLength s) 0 \<or> currentLine s = [])"

fun payload_cuts :: "receiver \<Rightarrow> byte list list \<Rightarrow> bool" where
  "payload_cuts s [] = True"
| "payload_cuts s [c] = True"
| "payload_cuts s (c # c' # cs) =
     (mid_word (processRawData s c) \<and> payload_cuts (processRawData s c) (c' # cs))"

text \<open>The sentence of the reply \<^verbatim>\<open>!done\<close> under tag 1, the reply word first.\<close>

definition done_sentence :: "byte list" where
  "done_sentence = encodeWords [''!done'', ''.tag=1'', []]"

section \<open>Properties\<close>

subsection \<open>Bytes and masks\<close>

lemma wrap32_id: "- (2 ^ 31) \<le> n \<Longrightarrow> n < 2 ^ 31 \<Longrightarrow> wrap32 n = n"
  by (simp add: wrap32_def)

lemma and_low_bits:
  "(u::int) AND 63 = u mod 64" "(u::int) AND 31 = u mod 32" "(u::int) AND 15 = u mod 16"
  using take_bit_eq_mask[of 6 u] take_bit_eq_mask[of 5 u] take_bit_eq_mask[of 4 u]
  by (simp_all add: mask_numeral take_bit_eq_mod)

lemma and_high_bits:
  "(u::int) AND 128 = 128 * ((u div 128) mod 2)"
  "(u::int) AND 192 = 64 * ((u div 64) mod 4)"
  "(u::int) AND 224 = 32 * ((u div 32) mod 8)"
  "(u::int) AND 240 = 16 * ((u div 16) mod 16)"
proof -
  have m: "(mask 8 :: int) AND NOT (mask 7) = 128" "(mask 8 :: int) AND NOT (mask 6) = 192"
    "(mask 8 :: int) AND NOT (mask 5) = 224" "(mask 8 :: int) AND NOT (mask 4) = 240"
    by (simp_all add: mask_numeral)
  show "u AND 128 = 128 * ((u div 128) mod 2)"
    using slice_eq_mask[of 7 1 u]
    by (simp add: and.assoc m push_bit_eq_mult take_bit_eq_mod drop_bit_eq_div)
  show "u AND 192 = 64 * ((u div 64) mod 4)"
    using slice_eq_mask[of 6 2 u]
    by (simp add: and.assoc m push_bit_eq_mult take_bit_eq_mod drop_bit_eq_div)
  show "u AND 224 = 32 * ((u div 32) mod 8)"
    using slice_eq_mask[of 5 3 u]
    by (simp add: and.assoc m push_bit_eq_mult take_bit_eq_mod drop_bit_eq_div)
  show "u AND 240 = 16 * ((u div 16) mod 16)"
    using slice_eq_mask[of 4 4 u]
    by (simp add: and.assoc m push_bit_eq_mult take_bit_eq_mod drop_bit_eq_div)
qed

lemma byte_class_int:
  fixes u :: int
  assumes "0 \<le> u" "u < 256"
  shows "(u AND 128 \<noteq> 0) = (128 \<le> u)"
    and "(u AND 192 = 128) = (128 \<le> u \<and> u < 192)"
    and "(u AND 224 = 192) = (192 \<le> u \<and> u < 224)"
    and "(u AND 240 = 224) = (224 \<le> u \<and> u < 240)"
proof -
  have small: "u div 128 mod 2 = u div 128" "u div 64 mod 4 = u div 64"
    "u div 32 mod 8 = u div 32" "u div 16 mod 16 = u div 16"
    using assms by simp_all
  have "(u div 128 \<noteq> 0) = (128 \<le> u)"
    using assms by auto
  then show "(u AND 128 \<noteq> 0) = (128 \<le> u)"
    by (simp add: and_high_bits small)
  have "(u div 64 = 2) = (128 \<le> u \<and> u < 192)"
    using assms by auto
  then show "(u AND 192 = 128) = (128 \<le> u \<and> u < 192)"
    by (simp add: and_high_bits small)
  have "(u div 32 = 6) = (192 \<le> u \<and> u < 224)"
    using assms by auto
  then show "(u AND 224 = 192) = (192 \<le> u \<and> u < 224)"
    by (simp add: and_high_bits small)
  have "(u div 16 = 14) = (224 \<le> u \<and> u < 240)"
    using assms by auto
  then show "(u AND 240 = 224) = (224 \<le> u \<and> u < 240)"
    by (simp add: and_high_bits small)
qed

lemma uint_byte_bounds: "0 \<le> uint (x::byte)" "uint (x::byte) < 256"
  using uint_bounded[of x] by simp_all

lemma wrap32_uint_byte [simp]: "wrap32 (uint (x::byte)) = uint x"
proof (rule wrap32_id)
  have "- (2 ^ 31) \<le> (0::int)"
    by simp
  also have "0 \<le> uint x"
    by (rule uint_byte_bounds)
  finally show "- (2 ^ 31) \<le> uint x" .
  have "uint x < 256"
    by (rule uint_byte_bounds)
  also have "(256::int) < 2 ^ 31"
    by simp
  finally show "uint x < 2 ^ 31" .
qed

lemma js_band_byte:
  "0 \<le> k \<Longrightarrow> k < 2 ^ 31 \<Longrightarrow> js_band (Num (uint (x::byte))) k = Num (uint x AND k)"
  by (simp add: js_band_def wrap32_id)

lemma byte_class:
  fixes x :: byte
  shows "js_truthy (js_band (Num (uint x)) 128) = (0x80 \<le> x)"
    and "(js_band (Num (uint x)) 192 = Num 128) = (0x80 \<le> x \<and> x < 0xC0)"
    and "(js_band (Num (uint x)) 224 = Num 192) = (0xC0 \<le> x \<and> x < 0xE0)"
    and "(js_band (Num (uint x)) 240 = Num 224) = (0xE0 \<le> x \<and> x < 0xF0)"
  using byte_class_int[of "uint x"] uint_byte_bounds[of x]
  by (simp_all add: js_band_byte word_le_def word_less_def)

lemma js_add_Undefined [simp]: "js_add x Undefined = NaN"
  by (cases x) simp_all

lemma js_add_shl_Num [simp]: "js_add (js_shl x k) (Num b) = Num (wrap32 (ToInt32 x * 2 ^ k) + b)"
  by (simp add: js_shl_def)

lemma at_index_Cons_0 [simp]: "at_index (x # rest) 0 = Num (uint x)"
  by (simp add: at_index_def)

lemma at_index_cases: "at_index data i = Undefined \<or> (\<exists>n. at_index data i = Num n)"
  by (simp add: at_index_def)

subsection \<open>The length decoder\<close>

lemma decodeLength_width: "fst (decodeLength (x # rest)) = descriptor_width x"
  by (auto simp: decodeLength_def descriptor_width_def Let_def byte_class)

lemma decodeLength_one_byte: "x < 0x80 \<Longrightarrow> decodeLength (x # rest) = (1, Num (uint x))"
  by (auto simp: decodeLength_def Let_def byte_class)

lemma decodeLength_short:
  assumes "length (x # rest) < descriptor_width x"
  shows "decodeLength (x # rest) = (descriptor_width x, NaN)"
  using assms
  by (auto simp: decodeLength_def descriptor_width_def Let_def byte_class at_index_def
           split: if_splits)

lemma decodeLength_complete:
  assumes "descriptor_width x \<le> length (x # rest)"
  shows "\<exists>n. decodeLength (x # rest) = (descriptor_width x, Num n)"
  using assms
  by (auto simp: decodeLength_def descriptor_width_def Let_def byte_class at_index_def
           split: if_splits)

lemmas js_simps = at_index_def js_band_def js_shl_def wrap32_def

lemmas run_defs = processRawData_def read_length_def next_word_def finish_word_def
  null_quirk_def push_sentence_def slice_bound_def Let_def

text \<open>
  Claim C3. The encoding of a length \<open>n\<close> is decoded to the descriptor width and \<open>n\<close>,
  in the five-byte class up to \<open>2^32 - 1\<close>. The code does not do this from \<open>2^31\<close> on: the
  last \<^verbatim>\<open>len << 8\<close> is a signed 32-bit shift, so the five bytes \<open>F0 80 00 00 00\<close>, which
  encode \<open>2^31\<close>, are decoded to \<open>-2^31\<close>.
\<close>

theorem decodeLength_five_byte_sign:
  "encodeLength 2147483648 = [0xF0, 0x80, 0, 0, 0] \<and>
   decodeLength (encodeLength 2147483648) = (5, Num (- 2147483648))"
  by (simp add: encodeLength_def decodeLength_def js_simps Let_def)

text \<open>
  Claim C6. On a non-empty buffer shorter than the descriptor width that its first byte
  announces, \<^verbatim>\<open>decodeLength\<close> throws nothing and returns that width, which exceeds the
  length of the buffer, together with \<^verbatim>\<open>NaN\<close> in the place of the length: no number is made
  up from the missing bytes. The answer tells the two cases apart, since a buffer that
  holds the whole descriptor always gives a number.
\<close>

theorem decodeLength_insufficient_bytes:
  assumes "data \<noteq> []"
  shows "(length data < descriptor_width (hd data) \<longrightarrow>
            decodeLength data = (descriptor_width (hd data), NaN)) \<and>
         (descriptor_width (hd data) \<le> length data \<longrightarrow>
            (\<exists>n. decodeLength data = (descriptor_width (hd data), Num n)))"
proof (cases data)
  case Nil
  with assms show ?thesis by simp
next
  case (Cons x rest)
  then show ?thesis
    using decodeLength_short[of x rest] decodeLength_complete[of x rest] by simp
qed

theorem decodeLength_insufficient_bytes_witness:
  "[0x80 :: byte] \<noteq> [] \<and> length [0x80 :: byte] < descriptor_width (hd [0x80]) \<and>
   decodeLength [0x80] = (2, NaN) \<and>
   [0xC1, 0x02, 0x03 :: byte] \<noteq> [] \<and>
   descriptor_width (hd [0xC1, 0x02, 0x03 :: byte]) \<le> length [0xC1, 0x02, 0x03 :: byte] \<and>
   (\<exists>n. decodeLength [0xC1, 0x02, 0x03] = (3, Num n))"
  using decodeLength_insufficient_bytes[of "[0x80]"]
    decodeLength_insufficient_bytes[of "[0xC1, 0x02, 0x03]"]
  by (simp add: descriptor_width_def)

text \<open>
  Claim C8. Over every sequence of chunks the counter \<^verbatim>\<open>dataLength\<close> stays a non-negative
  integer. The code breaks this on two chunks that a socket can deliver to a fresh receiver:
  the five-byte descriptor \<open>F0 80 00 00 00\<close> leaves \<open>-2^31\<close> in \<^verbatim>\<open>dataLength\<close>, and the lone
  first byte \<open>80\<close> of a two-byte descriptor leaves \<^verbatim>\<open>NaN\<close> there.
\<close>

theorem dataLength_negative_and_NaN:
  "dataLength (processRawData Receiver [0xF0, 0x80, 0, 0, 0]) = Num (- 2147483648) \<and>
   dataLength (processRawData Receiver [0x80]) = NaN"
  by (simp add: Receiver_def run_defs loop.simps decodeLength_def js_simps)

text \<open>
  Claim C9. \<^verbatim>\<open>sendTagData\<close> leaves the current packet, the current tag and the reply
  classification empty in each of its three outcomes. With no callback registered for the
  tag nothing is called and the drop is logged. With a callback registered it is called
  once on the packet; when it throws, the error is caught and logged, and the receiver goes
  on as when it returns. Nothing else of the receiver changes.
\<close>

theorem sendTagData_resets:
  "currentPacket (sendTagData s tag) = [] \<and>
   currentTag (sendTagData s tag) = None \<and>
   currentReply (sendTagData s tag) = [] \<and>
   (tags s tag = None \<longrightarrow>
      effects (sendTagData s tag) = effects s \<and>
      errorLog (sendTagData s tag) = errorLog s @ [UnregisteredTag tag]) \<and>
   (\<forall>cb. tags s tag = Some cb \<longrightarrow>
      effects (sendTagData s tag) = effects s @ [Called tag (currentPacket s)] \<and>
      (cb (currentPacket s) = Returned \<longrightarrow> errorLog (sendTagData s tag) = errorLog s) \<and>
      (\<forall>err. cb (currentPacket s) = Threw err \<longrightarrow>
         errorLog (sendTagData s tag) = errorLog s @ [CallbackError tag err])) \<and>
   sendTagData s tag =
     s\<lparr>currentPacket := [], currentTag := None, currentReply := [],
        effects := effects (sendTagData s tag), errorLog := errorLog (sendTagData s tag)\<rparr>"
  by (auto simp: sendTagData_def cleanUp_def caught_def split: option.splits)

theorem sendTagData_resets_witness:
  "(let s = (read ''7'' (\<lambda>p. Threw ''boom'') Receiver)\<lparr>currentPacket := [''!re''],
              currentTag := Some ''7'', currentReply := ''!re''\<rparr>
    in tags s ''7'' = Some (\<lambda>p. Threw ''boom'') \<and>
       (\<lambda>p. Threw ''boom'') (currentPacket s) = Threw ''boom'' \<and>
       currentPacket (sendTagData s ''7'') = [] \<and>
       currentTag (sendTagData s ''7'') = None \<and>
       currentReply (sendTagData s ''7'') = [] \<and>
       effects (sendTagData s ''7'') = [Called ''7'' [''!re'']] \<and>
       errorLog (sendTagData s ''7'') = [CallbackError ''7'' ''boom'']) \<and>
   (let s = Receiver\<lparr>currentPacket := [''!re''], currentTag := Some ''9''\<rparr>
    in tags s ''9'' = None \<and>
       currentPacket (sendTagData s ''9'') = [] \<and>
       effects (sendTagData s ''9'') = [] \<and>
       errorLog (sendTagData s ''9'') = [UnregisteredTag ''9''])"
  using sendTagData_resets[of "(read ''7'' (\<lambda>p. Threw ''boom'') Receiver)\<lparr>currentPacket := [''!re''],
              currentTag := Some ''7'', currentReply := ''!re''\<rparr>" "''7''"]
    sendTagData_resets[of "Receiver\<lparr>currentPacket := [''!re''], currentTag := Some ''9''\<rparr>" "''9''"]
  by (simp add: read_def Receiver_def Let_def)

subsection \<open>The pump\<close>

lemma sendTagData_keeps [simp]:
  "tags (sendTagData s t) = tags s"
  "dataLength (sendTagData s t) = dataLength s"
  "sentencePipe (sendTagData s t) = sentencePipe s"
  "processingSentencePipe (sendTagData s t) = processingSentencePipe s"
  "currentLine (sendTagData s t) = currentLine s"
  "lengthDescriptorSegment (sendTagData s t) = lengthDescriptorSegment s"
  by (simp_all add: sendTagData_def cleanUp_def split: option.splits)

lemma send_if_open_keeps [simp]:
  "tags (send_if_open s) = tags s"
  "dataLength (send_if_open s) = dataLength s"
  "sentencePipe (send_if_open s) = sentencePipe s"
  "processingSentencePipe (send_if_open s) = processingSentencePipe s"
  "currentLine (send_if_open s) = currentLine s"
  "lengthDescriptorSegment (send_if_open s) = lengthDescriptorSegment s"
  by (simp_all add: send_if_open_def split: option.splits)

lemma classify_keeps [simp]:
  "tags (classify line s) = tags s"
  "dataLength (classify line s) = dataLength s"
  "sentencePipe (classify line s) = sentencePipe s"
  "processingSentencePipe (classify line s) = processingSentencePipe s"
  "currentLine (classify line s) = currentLine s"
  "lengthDescriptorSegment (classify line s) = lengthDescriptorSegment s"
  by (simp_all add: classify_def Let_def)

lemma process_keeps:
  "tags (process s) = tags s \<and> dataLength (process s) = dataLength s \<and>
   currentLine (process s) = currentLine s \<and>
   lengthDescriptorSegment (process s) = lengthDescriptorSegment s"
proof (induction s rule: process.induct)
  case (1 s)
  show ?case
  proof (cases "sentencePipe s")
    case Nil
    then show ?thesis by (simp add: process.simps[of s])
  next
    case (Cons line rest)
    then show ?thesis
      using "1.IH"[OF Cons refl]
      by (simp add: process.simps[of s] Let_def split: option.splits)
  qed
qed


lemma process_empty_pipe:
  "sentencePipe s = [] \<Longrightarrow> process s = s\<lparr>processingSentencePipe := False\<rparr>"
  by (simp add: process.simps[of s])



lemma processSentence_keeps [simp]:
  "tags (processSentence s) = tags s"
  "dataLength (processSentence s) = dataLength s"
  "currentLine (processSentence s) = currentLine s"
  "lengthDescriptorSegment (processSentence s) = lengthDescriptorSegment s"
  using process_keeps[of "s\<lparr>processingSentencePipe := True\<rparr>"]
  by (simp_all add: processSentence_def)


lemma drained_update [simp]:
  "drained (s\<lparr>dataLength := d\<rparr>) = drained s"
  "drained (s\<lparr>currentLine := c\<rparr>) = drained s"
  "drained (s\<lparr>lengthDescriptorSegment := g\<rparr>) = drained s"
  by (simp_all add: drained_def)






lemma loop_Nil [simp]: "loop s [] = s"
  by (simp add: loop.simps[of s "[]"])



lemma open_tag_send_if_open [simp]: "open_tag (send_if_open s) = None"
  by (simp add: send_if_open_def open_tag_def sendTagData_def cleanUp_def
        split: option.splits)

lemma send_if_open_closed: "open_tag s = None \<Longrightarrow> send_if_open s = s"
  by (simp add: send_if_open_def)

lemma process_single:
  assumes "sentencePipe s = [line]"
  shows "process s =
     (let s1 = s\<lparr>sentencePipe := []\<rparr> in
      if sentence line = ''!empty'' then
        (case open_tag s1 of
           Some t \<Rightarrow>
             (sendTagData (s1\<lparr>currentPacket := currentPacket s1 @ [''!done'']\<rparr>) t)
               \<lparr>processingSentencePipe := False\<rparr>
         | None \<Rightarrow> s1\<lparr>processingSentencePipe := False\<rparr>)
      else if \<not> hadMore line \<and> currentReply s1 = ''!fatal'' then
        s1\<lparr>effects := effects s1 @ [Emitted ''fatal''], processingSentencePipe := False\<rparr>
      else
        (let s2 = classify line s1 in
         (if js_seq (dataLength s2) 0 \<and> \<not> hadMore line then send_if_open s2 else s2)
           \<lparr>processingSentencePipe := False\<rparr>))"
proof -
  have "process (classify line (s\<lparr>sentencePipe := []\<rparr>)) =
        (classify line (s\<lparr>sentencePipe := []\<rparr>))\<lparr>processingSentencePipe := False\<rparr>"
    by (rule process_empty_pipe) simp
  then show ?thesis
    using assms
    by (cases "js_seq (dataLength s) 0"; cases "hadMore line")
       (simp_all add: process.simps[of s] Let_def split del: if_split cong: if_cong)
qed

lemma sendTagData_flag:
  "sendTagData (s\<lparr>processingSentencePipe := b\<rparr>) t = (sendTagData s t)\<lparr>processingSentencePipe := b\<rparr>"
  by (simp add: sendTagData_def cleanUp_def split: option.splits)

lemma send_if_open_flag:
  "send_if_open (s\<lparr>processingSentencePipe := b\<rparr>) = (send_if_open s)\<lparr>processingSentencePipe := b\<rparr>"
  by (simp add: send_if_open_def open_tag_def sendTagData_flag split: option.splits)

lemma classify_flag:
  "classify line (s\<lparr>processingSentencePipe := b\<rparr>) = (classify line s)\<lparr>processingSentencePipe := b\<rparr>"
  by (simp add: classify_def Let_def send_if_open_flag)

lemma flag_off: "\<not> processingSentencePipe r \<Longrightarrow> r\<lparr>processingSentencePipe := False\<rparr> = r"
  by (cases r) simp

lemma processSentence_one:
  assumes "drained s"
  shows "processSentence (push_sentence l h s) =
     (if l = ''!empty'' then
        (case open_tag s of
           Some t \<Rightarrow> sendTagData (s\<lparr>currentPacket := currentPacket s @ [''!done'']\<rparr>) t
         | None \<Rightarrow> s)
      else if \<not> h \<and> currentReply s = ''!fatal'' then
        s\<lparr>effects := effects s @ [Emitted ''fatal'']\<rparr>
      else
        (let s2 = classify \<lparr>sentence = l, hadMore = h\<rparr> s in
         if js_seq (dataLength s) 0 \<and> \<not> h then send_if_open s2 else s2))"
proof -
  let ?q = "(push_sentence l h s)\<lparr>processingSentencePipe := True\<rparr>"
  let ?on = "s\<lparr>processingSentencePipe := True\<rparr>"
  let ?line = "\<lparr>sentence = l, hadMore = h\<rparr>"
  have off: "\<not> processingSentencePipe s"
    using assms by (simp add: drained_def)
  have pipe: "sentencePipe ?q = [?line]"
    using assms by (simp add: push_sentence_def drained_def)
  have q: "?q\<lparr>sentencePipe := []\<rparr> = ?on"
    using assms by (cases s) (simp add: push_sentence_def drained_def)
  have ps: "processSentence (push_sentence l h s) = process ?q"
    using assms by (simp add: processSentence_def push_sentence_def drained_def)
  have synth: "(sendTagData (?on\<lparr>currentPacket := currentPacket ?on @ [''!done'']\<rparr>) t)
                 \<lparr>processingSentencePipe := False\<rparr> =
              sendTagData (s\<lparr>currentPacket := currentPacket s @ [''!done'']\<rparr>) t" for t
  proof -
    have "?on\<lparr>currentPacket := currentPacket ?on @ [''!done'']\<rparr> =
          (s\<lparr>currentPacket := currentPacket s @ [''!done'']\<rparr>)\<lparr>processingSentencePipe := True\<rparr>"
      by simp
    then show ?thesis
      using off by (simp only: sendTagData_flag) (simp add: flag_off)
  qed
  have ignored: "?on\<lparr>processingSentencePipe := False\<rparr> = s"
    using off by (simp add: flag_off)
  have fatal: "?on\<lparr>effects := effects ?on @ [Emitted ''fatal''], processingSentencePipe := False\<rparr> =
               s\<lparr>effects := effects s @ [Emitted ''fatal'']\<rparr>"
    using off by (cases s) simp
  have cl: "(classify ln ?on)\<lparr>processingSentencePipe := False\<rparr> = classify ln s" for ln
    using off by (simp add: classify_flag flag_off)
  have fl: "(send_if_open (classify ln ?on))\<lparr>processingSentencePipe := False\<rparr> =
            send_if_open (classify ln s)" for ln
    using off by (simp add: classify_flag send_if_open_flag flag_off)
  have ot: "open_tag ?on = open_tag s" "currentReply ?on = currentReply s"
    "dataLength ?on = dataLength s"
    by (simp_all add: open_tag_def)
  have step: "process ?q =
     (if l = ''!empty'' then
        (case open_tag s of
           Some t \<Rightarrow> sendTagData (s\<lparr>currentPacket := currentPacket s @ [''!done'']\<rparr>) t
         | None \<Rightarrow> s)
      else if \<not> h \<and> currentReply s = ''!fatal'' then
        s\<lparr>effects := effects s @ [Emitted ''fatal'']\<rparr>
      else if js_seq (dataLength s) 0 \<and> \<not> h then send_if_open (classify ?line s)
      else classify ?line s)"
    unfolding process_single[OF pipe] q Let_def
    by (cases "l = ''!empty''"; cases "\<not> h \<and> currentReply s = ''!fatal''";
        cases "js_seq (dataLength s) 0 \<and> \<not> h"; cases "open_tag s")
       (simp_all only: ot synth ignored fatal cl fl option.case if_True if_False
          ISentence.simps classify_keeps receiver.simps simp_thms)
  show ?thesis
    unfolding ps step Let_def ..
qed







lemma classify_cases:
  "classify \<lparr>sentence = l, hadMore = h\<rparr> s =
     (if take 5 l = ''.tag='' then s\<lparr>currentTag := Some (drop 5 l)\<rparr>
      else if take 1 l = ''!'' then
        (send_if_open s)\<lparr>currentPacket := currentPacket (send_if_open s) @ [l],
                          currentReply := l\<rparr>
      else s\<lparr>currentPacket := currentPacket s @ [l]\<rparr>)"
  by (simp add: classify_def Let_def)

lemma send_if_open_marker:
  "send_if_open ((send_if_open s)\<lparr>currentPacket := p, currentReply := r\<rparr>) =
     (send_if_open s)\<lparr>currentPacket := p, currentReply := r\<rparr>"
proof -
  have "open_tag ((send_if_open s)\<lparr>currentPacket := p, currentReply := r\<rparr>) =
        open_tag (send_if_open s)"
    by (simp add: open_tag_def)
  then show ?thesis
    by (simp add: send_if_open_closed)
qed

subsection \<open>Running the receiver on concrete chunks\<close>

lemma ascii_table:
  "char_of (0::nat) = CHR 0x00"
  "char_of (32::nat) = CHR 0x20"
  "char_of (33::nat) = CHR 0x21"
  "char_of (34::nat) = CHR 0x22"
  "char_of (35::nat) = CHR 0x23"
  "char_of (36::nat) = CHR 0x24"
  "char_of (37::nat) = CHR 0x25"
  "char_of (38::nat) = CHR 0x26"
  "char_of (39::nat) = CHR 0x27"
  "char_of (40::nat) = CHR 0x28"
  "char_of (41::nat) = CHR 0x29"
  "char_of (42::nat) = CHR 0x2A"
  "char_of (43::nat) = CHR 0x2B"
  "char_of (44::nat) = CHR 0x2C"
  "char_of (45::nat) = CHR 0x2D"
  "char_of (46::nat) = CHR 0x2E"
  "char_of (47::nat) = CHR 0x2F"
  "char_of (48::nat) = CHR 0x30"
  "char_of (49::nat) = CHR 0x31"
  "char_of (50::nat) = CHR 0x32"
  "char_of (51::nat) = CHR 0x33"
  "char_of (52::nat) = CHR 0x34"
  "char_of (53::nat) = CHR 0x35"
  "char_of (54::nat) = CHR 0x36"
  "char_of (55::nat) = CHR 0x37"
  "char_of (56::nat) = CHR 0x38"
  "char_of (57::nat) = CHR 0x39"
  "char_of (58::nat) = CHR 0x3A"
  "char_of (59::nat) = CHR 0x3B"
  "char_of (60::nat) = CHR 0x3C"
  "char_of (61::nat) = CHR 0x3D"
  "char_of (62::nat) = CHR 0x3E"
  "char_of (63::nat) = CHR 0x3F"
  "char_of (64::nat) = CHR 0x40"
  "char_of (65::nat) = CHR 0x41"
  "char_of (66::nat) = CHR 0x42"
  "char_of (67::nat) = CHR 0x43"
  "char_of (68::nat) = CHR 0x44"
  "char_of (69::nat) = CHR 0x45"
  "char_of (70::nat) = CHR 0x46"
  "char_of (71::nat) = CHR 0x47"
  "char_of (72::nat) = CHR 0x48"
  "char_of (73::nat) = CHR 0x49"
  "char_of (74::nat) = CHR 0x4A"
  "char_of (75::nat) = CHR 0x4B"
  "char_of (76::nat) = CHR 0x4C"
  "char_of (77::nat) = CHR 0x4D"
  "char_of (78::nat) = CHR 0x4E"
  "char_of (79::nat) = CHR 0x4F"
  "char_of (80::nat) = CHR 0x50"
  "char_of (81::nat) = CHR 0x51"
  "char_of (82::nat) = CHR 0x52"
  "char_of (83::nat) = CHR 0x53"
  "char_of (84::nat) = CHR 0x54"
  "char_of (85::nat) = CHR 0x55"
  "char_of (86::nat) = CHR 0x56"
  "char_of (87::nat) = CHR 0x57"
  "char_of (88::nat) = CHR 0x58"
  "char_of (89::nat) = CHR 0x59"
  "char_of (90::nat) = CHR 0x5A"
  "char_of (91::nat) = CHR 0x5B"
  "char_of (92::nat) = CHR 0x5C"
  "char_of (93::nat) = CHR 0x5D"
  "char_of (94::nat) = CHR 0x5E"
  "char_of (95::nat) = CHR 0x5F"
  "char_of (96::nat) = CHR 0x60"
  "char_of (97::nat) = CHR 0x61"
  "char_of (98::nat) = CHR 0x62"
  "char_of (99::nat) = CHR 0x63"
  "char_of (100::nat) = CHR 0x64"
  "char_of (101::nat) = CHR 0x65"
  "char_of (102::nat) = CHR 0x66"
  "char_of (103::nat) = CHR 0x67"
  "char_of (104::nat) = CHR 0x68"
  "char_of (105::nat) = CHR 0x69"
  "char_of (106::nat) = CHR 0x6A"
  "char_of (107::nat) = CHR 0x6B"
  "char_of (108::nat) = CHR 0x6C"
  "char_of (109::nat) = CHR 0x6D"
  "char_of (110::nat) = CHR 0x6E"
  "char_of (111::nat) = CHR 0x6F"
  "char_of (112::nat) = CHR 0x70"
  "char_of (113::nat) = CHR 0x71"
  "char_of (114::nat) = CHR 0x72"
  "char_of (115::nat) = CHR 0x73"
  "char_of (116::nat) = CHR 0x74"
  "char_of (117::nat) = CHR 0x75"
  "char_of (118::nat) = CHR 0x76"
  "char_of (119::nat) = CHR 0x77"
  "char_of (120::nat) = CHR 0x78"
  "char_of (121::nat) = CHR 0x79"
  "char_of (122::nat) = CHR 0x7A"
  "char_of (123::nat) = CHR 0x7B"
  "char_of (124::nat) = CHR 0x7C"
  "char_of (125::nat) = CHR 0x7D"
  "char_of (126::nat) = CHR 0x7E"
  by (simp_all add: char_of_def bit_0)

lemmas run_all = read_def Receiver_def feed_def processRawData_def next_word_def
  read_length_def finish_word_def null_quirk_def push_sentence_def processSentence_def
  classify_def send_if_open_def open_tag_def sendTagData_def cleanUp_def decodeLength_def
  at_index_def js_band_def js_shl_def wrap32_def slice_bound_def decode_win1252_def Let_def
  ascii_table loop.simps process.simps

lemma tag1_stream_bytes:
  "tag1_stream = [6, 46, 116, 97, 103, 61, 49, 3, 33, 114, 101, 10, 110, 97, 109, 101, 61, 97, 108, 105, 99, 101, 0, 6, 46, 116, 97, 103, 61, 49, 5, 33, 100, 111, 110, 101, 0]"
  by (simp add: tag1_stream_def encodeWords_def encodeWord_def encodeLength_def bytes_of_def)

lemma positions_38: "[0..<38] = [0, 1, 2, 3, 4, 5, 6, 7, 8, 9, 10, 11, 12, 13, 14, 15, 16, 17, 18, 19, 20, 21, 22, 23, 24, 25, 26, 27, 28, 29, 30, 31, 32, 33, 34, 35, 36, 37]"
  by (simp add: upt_conv_Cons)

lemma two_fragments_0:
  "tag1_outcome (two_fragments cb 0)"
  "tag1_outcome (two_fragments cb 1)"
  "tag1_outcome (two_fragments cb 2)"
  "tag1_outcome (two_fragments cb 3)"
  "tag1_outcome (two_fragments cb 4)"
  by (simp_all add: tag1_outcome_def two_fragments_def tag1_stream_bytes run_all)

lemma two_fragments_1:
  "tag1_outcome (two_fragments cb 5)"
  "tag1_outcome (two_fragments cb 6)"
  "tag1_outcome (two_fragments cb 7)"
  "tag1_outcome (two_fragments cb 8)"
  "tag1_outcome (two_fragments cb 9)"
  by (simp_all add: tag1_outcome_def two_fragments_def tag1_stream_bytes run_all)

lemma two_fragments_2:
  "tag1_outcome (two_fragments cb 10)"
  "tag1_outcome (two_fragments cb 11)"
  "tag1_outcome (two_fragments cb 12)"
  "tag1_outcome (two_fragments cb 13)"
  "tag1_outcome (two_fragments cb 14)"
  by (simp_all add: tag1_outcome_def two_fragments_def tag1_stream_bytes run_all)

lemma two_fragments_3:
  "tag1_outcome (two_fragments cb 15)"
  "tag1_outcome (two_fragments cb 16)"
  "tag1_outcome (two_fragments cb 17)"
  "tag1_outcome (two_fragments cb 18)"
  "tag1_outcome (two_fragments cb 19)"
  by (simp_all add: tag1_outcome_def two_fragments_def tag1_stream_bytes run_all)

lemma two_fragments_4:
  "tag1_outcome (two_fragments cb 20)"
  "tag1_outcome (two_fragments cb 21)"
  "tag1_outcome (two_fragments cb 22)"
  "tag1_outcome (two_fragments cb 23)"
  "tag1_outcome (two_fragments cb 24)"
  by (simp_all add: tag1_outcome_def two_fragments_def tag1_stream_bytes run_all)

lemma two_fragments_5:
  "tag1_outcome (two_fragments cb 25)"
  "tag1_outcome (two_fragments cb 26)"
  "tag1_outcome (two_fragments cb 27)"
  "tag1_outcome (two_fragments cb 28)"
  "tag1_outcome (two_fragments cb 29)"
  by (simp_all add: tag1_outcome_def two_fragments_def tag1_stream_bytes run_all)

lemma two_fragments_6:
  "tag1_outcome (two_fragments cb 30)"
  "tag1_outcome (two_fragments cb 31)"
  "tag1_outcome (two_fragments cb 32)"
  "tag1_outcome (two_fragments cb 33)"
  "tag1_outcome (two_fragments cb 34)"
  by (simp_all add: tag1_outcome_def two_fragments_def tag1_stream_bytes run_all)

lemma two_fragments_7:
  "tag1_outcome (two_fragments cb 35)"
  "tag1_outcome (two_fragments cb 36)"
  "tag1_outcome (two_fragments cb 37)"
  by (simp_all add: tag1_outcome_def two_fragments_def tag1_stream_bytes run_all)

lemmas two_fragments_cases = two_fragments_0 two_fragments_1 two_fragments_2 two_fragments_3 two_fragments_4 two_fragments_5 two_fragments_6 two_fragments_7

lemma two_fragments_below: "list_all (\<lambda>k. tag1_outcome (two_fragments cb k)) [0..<38]"
  unfolding positions_38 by (simp only: list.pred_inject two_fragments_cases simp_thms)

text \<open>
  Claim C1, amended. The stream of the words \<^verbatim>\<open>.tag=1\<close>, \<^verbatim>\<open>!re\<close>, \<^verbatim>\<open>name=alice\<close>,
  terminator, \<^verbatim>\<open>.tag=1\<close>, \<^verbatim>\<open>!done\<close>, terminator, cut into two fragments at any byte
  and fed to a receiver with a callback for tag 1, calls that callback exactly twice:
  first on the empty packet (when \<^verbatim>\<open>!re\<close> arrives, tag 1 is already open and is flushed),
  then on \<^verbatim>\<open>["!re", "name=alice"]\<close> (when \<^verbatim>\<open>!done\<close> arrives). The packet
  \<^verbatim>\<open>["!done"]\<close> is not delivered: it stays in the receiver as the current packet.
\<close>

theorem tag1_two_fragments:
  "effects (feed (read ''1'' cb Receiver) [take k tag1_stream, drop k tag1_stream]) =
     [Called ''1'' [], Called ''1'' [''!re'', ''name=alice'']] \<and>
   currentPacket (feed (read ''1'' cb Receiver) [take k tag1_stream, drop k tag1_stream]) =
     [''!done'']"
proof (cases "k < 38")
  case True
  then have "k \<in> set [0..<38]" by simp
  with two_fragments_below[of cb] have "tag1_outcome (two_fragments cb k)"
    by (simp only: list_all_iff)
  then show ?thesis by (simp add: tag1_outcome_def two_fragments_def)
next
  case False
  have "length tag1_stream = 37" by (simp add: tag1_stream_bytes)
  with False have "take k tag1_stream = take 37 tag1_stream"
    "drop k tag1_stream = drop 37 tag1_stream"
    by simp_all
  moreover have "tag1_outcome (two_fragments cb 37)" by (rule two_fragments_cases)
  ultimately show ?thesis by (simp add: tag1_outcome_def two_fragments_def)
qed

theorem tag1_two_fragments_counterexample:
  "effects (feed (read ''1'' (\<lambda>p. Returned) Receiver)
              [take 10 tag1_stream, drop 10 tag1_stream]) \<noteq>
     [Called ''1'' [''!re'', ''name=alice''], Called ''1'' [''!done'']]"
  using two_fragments_cases(11)[of "\<lambda>p. Returned"]
  by (simp add: tag1_outcome_def two_fragments_def)

subsection \<open>The pump on the queues that the receiver builds\<close>



lemma tag1_open_state:
  "tag1_open = (read ''1'' (\<lambda>p. Returned) Receiver)\<lparr>currentTag := Some ''1''\<rparr>"
  by (simp add: tag1_open_def run_def encodeWord_def encodeLength_def bytes_of_def run_all)


subsection \<open>The reply \<^verbatim>\<open>!empty\<close>\<close>

lemma tag7_bytes:
  "tag7_sentence = [6, 46, 116, 97, 103, 61, 55, 6, 33, 101, 109, 112, 116, 121, 0]"
  "tag7_words = [6, 46, 116, 97, 103, 61, 55, 0, 6, 33, 101, 109, 112, 116, 121, 0]"
  by (simp_all add: tag7_sentence_def tag7_words_def encodeWords_def encodeWord_def
        encodeLength_def bytes_of_def)

lemma positions_below_7:
  "[0..<7] = [0, 1, 2, 3, 4, 5, 6]"
  "[1..<7] = [1, 2, 3, 4, 5, 6]"
  "[2..<7] = [2, 3, 4, 5, 6]"
  "[3..<7] = [3, 4, 5, 6]"
  "[4..<7] = [4, 5, 6]"
  "[5..<7] = [5, 6]"
  "[6..<7] = [6]"
  by (simp_all add: upt_conv_Cons)

lemma positions_below_8:
  "[0..<8] = [0, 1, 2, 3, 4, 5, 6, 7]"
  "[1..<8] = [1, 2, 3, 4, 5, 6, 7]"
  "[2..<8] = [2, 3, 4, 5, 6, 7]"
  "[3..<8] = [3, 4, 5, 6, 7]"
  "[4..<8] = [4, 5, 6, 7]"
  "[5..<8] = [5, 6, 7]"
  "[6..<8] = [6, 7]"
  "[7..<8] = [7]"
  by (simp_all add: upt_conv_Cons)

lemma positions_below_16:
  "[0..<16] = [0, 1, 2, 3, 4, 5, 6, 7, 8, 9, 10, 11, 12, 13, 14, 15]"
  "[1..<16] = [1, 2, 3, 4, 5, 6, 7, 8, 9, 10, 11, 12, 13, 14, 15]"
  "[2..<16] = [2, 3, 4, 5, 6, 7, 8, 9, 10, 11, 12, 13, 14, 15]"
  "[3..<16] = [3, 4, 5, 6, 7, 8, 9, 10, 11, 12, 13, 14, 15]"
  "[4..<16] = [4, 5, 6, 7, 8, 9, 10, 11, 12, 13, 14, 15]"
  "[5..<16] = [5, 6, 7, 8, 9, 10, 11, 12, 13, 14, 15]"
  "[6..<16] = [6, 7, 8, 9, 10, 11, 12, 13, 14, 15]"
  "[7..<16] = [7, 8, 9, 10, 11, 12, 13, 14, 15]"
  "[8..<16] = [8, 9, 10, 11, 12, 13, 14, 15]"
  "[9..<16] = [9, 10, 11, 12, 13, 14, 15]"
  "[10..<16] = [10, 11, 12, 13, 14, 15]"
  "[11..<16] = [11, 12, 13, 14, 15]"
  "[12..<16] = [12, 13, 14, 15]"
  "[13..<16] = [13, 14, 15]"
  "[14..<16] = [14, 15]"
  "[15..<16] = [15]"
  by (simp_all add: upt_conv_Cons)

lemma positions_below_17:
  "[0..<17] = [0, 1, 2, 3, 4, 5, 6, 7, 8, 9, 10, 11, 12, 13, 14, 15, 16]"
  "[1..<17] = [1, 2, 3, 4, 5, 6, 7, 8, 9, 10, 11, 12, 13, 14, 15, 16]"
  "[2..<17] = [2, 3, 4, 5, 6, 7, 8, 9, 10, 11, 12, 13, 14, 15, 16]"
  "[3..<17] = [3, 4, 5, 6, 7, 8, 9, 10, 11, 12, 13, 14, 15, 16]"
  "[4..<17] = [4, 5, 6, 7, 8, 9, 10, 11, 12, 13, 14, 15, 16]"
  "[5..<17] = [5, 6, 7, 8, 9, 10, 11, 12, 13, 14, 15, 16]"
  "[6..<17] = [6, 7, 8, 9, 10, 11, 12, 13, 14, 15, 16]"
  "[7..<17] = [7, 8, 9, 10, 11, 12, 13, 14, 15, 16]"
  "[8..<17] = [8, 9, 10, 11, 12, 13, 14, 15, 16]"
  "[9..<17] = [9, 10, 11, 12, 13, 14, 15, 16]"
  "[10..<17] = [10, 11, 12, 13, 14, 15, 16]"
  "[11..<17] = [11, 12, 13, 14, 15, 16]"
  "[12..<17] = [12, 13, 14, 15, 16]"
  "[13..<17] = [13, 14, 15, 16]"
  "[14..<17] = [14, 15, 16]"
  "[15..<17] = [15, 16]"
  "[16..<17] = [16]"
  by (simp_all add: upt_conv_Cons)

lemma sentence_step_0:
  "step (seen_sentence cb) tag7_sentence 0 0"
  "step (seen_sentence cb) tag7_sentence 0 1"
  "step (seen_sentence cb) tag7_sentence 0 2"
  "step (seen_sentence cb) tag7_sentence 0 3"
  "step (seen_sentence cb) tag7_sentence 0 4"
  "step (seen_sentence cb) tag7_sentence 0 5"
  "step (seen_sentence cb) tag7_sentence 0 6"
  "step (seen_sentence cb) tag7_sentence 0 7"
  "step (seen_sentence cb) tag7_sentence 0 8"
  "step (seen_sentence cb) tag7_sentence 0 9"
  "step (seen_sentence cb) tag7_sentence 0 10"
  "step (seen_sentence cb) tag7_sentence 0 11"
  "step (seen_sentence cb) tag7_sentence 0 12"
  "step (seen_sentence cb) tag7_sentence 0 13"
  "step (seen_sentence cb) tag7_sentence 0 14"
  "step (seen_sentence cb) tag7_sentence 0 15"
  by (simp_all add: step_def crossing_def seen_sentence_def seen_words_def seen_flushed_def tag7_bytes run_all)

lemma sentence_step_1:
  "step (seen_sentence cb) tag7_sentence 1 1"
  "step (seen_sentence cb) tag7_sentence 1 2"
  "step (seen_sentence cb) tag7_sentence 1 3"
  "step (seen_sentence cb) tag7_sentence 1 4"
  "step (seen_sentence cb) tag7_sentence 1 5"
  "step (seen_sentence cb) tag7_sentence 1 6"
  "step (seen_sentence cb) tag7_sentence 1 7"
  "step (seen_sentence cb) tag7_sentence 1 8"
  "step (seen_sentence cb) tag7_sentence 1 9"
  "step (seen_sentence cb) tag7_sentence 1 10"
  "step (seen_sentence cb) tag7_sentence 1 11"
  "step (seen_sentence cb) tag7_sentence 1 12"
  "step (seen_sentence cb) tag7_sentence 1 13"
  "step (seen_sentence cb) tag7_sentence 1 14"
  "step (seen_sentence cb) tag7_sentence 1 15"
  by (simp_all add: step_def crossing_def seen_sentence_def seen_words_def seen_flushed_def tag7_bytes run_all)

lemma sentence_step_2:
  "step (seen_sentence cb) tag7_sentence 2 2"
  "step (seen_sentence cb) tag7_sentence 2 3"
  "step (seen_sentence cb) tag7_sentence 2 4"
  "step (seen_sentence cb) tag7_sentence 2 5"
  "step (seen_sentence cb) tag7_sentence 2 6"
  "step (seen_sentence cb) tag7_sentence 2 7"
  "step (seen_sentence cb) tag7_sentence 2 8"
  "step (seen_sentence cb) tag7_sentence 2 9"
  "step (seen_sentence cb) tag7_sentence 2 10"
  "step (seen_sentence cb) tag7_sentence 2 11"
  "step (seen_sentence cb) tag7_sentence 2 12"
  "step (seen_sentence cb) tag7_sentence 2 13"
  "step (seen_sentence cb) tag7_sentence 2 14"
  "step (seen_sentence cb) tag7_sentence 2 15"
  by (simp_all add: step_def crossing_def seen_sentence_def seen_words_def seen_flushed_def tag7_bytes run_all)

lemma sentence_step_3:
  "step (seen_sentence cb) tag7_sentence 3 3"
  "step (seen_sentence cb) tag7_sentence 3 4"
  "step (seen_sentence cb) tag7_sentence 3 5"
  "step (seen_sentence cb) tag7_sentence 3 6"
  "step (seen_sentence cb) tag7_sentence 3 7"
  "step (seen_sentence cb) tag7_sentence 3 8"
  "step (seen_sentence cb) tag7_sentence 3 9"
  "step (seen_sentence cb) tag7_sentence 3 10"
  "step (seen_sentence cb) tag7_sentence 3 11"
  "step (seen_sentence cb) tag7_sentence 3 12"
  "step (seen_sentence cb) tag7_sentence 3 13"
  "step (seen_sentence cb) tag7_sentence 3 14"
  "step (seen_sentence cb) tag7_sentence 3 15"
  by (simp_all add: step_def crossing_def seen_sentence_def seen_words_def seen_flushed_def tag7_bytes run_all)

lemma sentence_step_4:
  "step (seen_sentence cb) tag7_sentence 4 4"
  "step (seen_sentence cb) tag7_sentence 4 5"
  "step (seen_sentence cb) tag7_sentence 4 6"
  "step (seen_sentence cb) tag7_sentence 4 7"
  "step (seen_sentence cb) tag7_sentence 4 8"
  "step (seen_sentence cb) tag7_sentence 4 9"
  "step (seen_sentence cb) tag7_sentence 4 10"
  "step (seen_sentence cb) tag7_sentence 4 11"
  "step (seen_sentence cb) tag7_sentence 4 12"
  "step (seen_sentence cb) tag7_sentence 4 13"
  "step (seen_sentence cb) tag7_sentence 4 14"
  "step (seen_sentence cb) tag7_sentence 4 15"
  by (simp_all add: step_def crossing_def seen_sentence_def seen_words_def seen_flushed_def tag7_bytes run_all)

lemma sentence_step_5:
  "step (seen_sentence cb) tag7_sentence 5 5"
  "step (seen_sentence cb) tag7_sentence 5 6"
  "step (seen_sentence cb) tag7_sentence 5 7"
  "step (seen_sentence cb) tag7_sentence 5 8"
  "step (seen_sentence cb) tag7_sentence 5 9"
  "step (seen_sentence cb) tag7_sentence 5 10"
  "step (seen_sentence cb) tag7_sentence 5 11"
  "step (seen_sentence cb) tag7_sentence 5 12"
  "step (seen_sentence cb) tag7_sentence 5 13"
  "step (seen_sentence cb) tag7_sentence 5 14"
  "step (seen_sentence cb) tag7_sentence 5 15"
  by (simp_all add: step_def crossing_def seen_sentence_def seen_words_def seen_flushed_def tag7_bytes run_all)

lemma sentence_step_6:
  "step (seen_sentence cb) tag7_sentence 6 6"
  "step (seen_sentence cb) tag7_sentence 6 7"
  "step (seen_sentence cb) tag7_sentence 6 8"
  "step (seen_sentence cb) tag7_sentence 6 9"
  "step (seen_sentence cb) tag7_sentence 6 10"
  "step (seen_sentence cb) tag7_sentence 6 11"
  "step (seen_sentence cb) tag7_sentence 6 12"
  "step (seen_sentence cb) tag7_sentence 6 13"
  "step (seen_sentence cb) tag7_sentence 6 14"
  "step (seen_sentence cb) tag7_sentence 6 15"
  by (simp_all add: step_def crossing_def seen_sentence_def seen_words_def seen_flushed_def tag7_bytes run_all)

lemma sentence_step_7:
  "step (seen_sentence cb) tag7_sentence 7 7"
  "step (seen_sentence cb) tag7_sentence 7 8"
  "step (seen_sentence cb) tag7_sentence 7 9"
  "step (seen_sentence cb) tag7_sentence 7 10"
  "step (seen_sentence cb) tag7_sentence 7 11"
  "step (seen_sentence cb) tag7_sentence 7 12"
  "step (seen_sentence cb) tag7_sentence 7 13"
  "step (seen_sentence cb) tag7_sentence 7 14"
  "step (seen_sentence cb) tag7_sentence 7 15"
  by (simp_all add: step_def crossing_def seen_sentence_def seen_words_def seen_flushed_def tag7_bytes run_all)

lemma sentence_step_8:
  "step (seen_sentence cb) tag7_sentence 8 8"
  "step (seen_sentence cb) tag7_sentence 8 9"
  "step (seen_sentence cb) tag7_sentence 8 10"
  "step (seen_sentence cb) tag7_sentence 8 11"
  "step (seen_sentence cb) tag7_sentence 8 12"
  "step (seen_sentence cb) tag7_sentence 8 13"
  "step (seen_sentence cb) tag7_sentence 8 14"
  "step (seen_sentence cb) tag7_sentence 8 15"
  by (simp_all add: step_def crossing_def seen_sentence_def seen_words_def seen_flushed_def tag7_bytes run_all)

lemma sentence_step_9:
  "step (seen_sentence cb) tag7_sentence 9 9"
  "step (seen_sentence cb) tag7_sentence 9 10"
  "step (seen_sentence cb) tag7_sentence 9 11"
  "step (seen_sentence cb) tag7_sentence 9 12"
  "step (seen_sentence cb) tag7_sentence 9 13"
  "step (seen_sentence cb) tag7_sentence 9 14"
  "step (seen_sentence cb) tag7_sentence 9 15"
  by (simp_all add: step_def crossing_def seen_sentence_def seen_words_def seen_flushed_def tag7_bytes run_all)

lemma sentence_step_10:
  "step (seen_sentence cb) tag7_sentence 10 10"
  "step (seen_sentence cb) tag7_sentence 10 11"
  "step (seen_sentence cb) tag7_sentence 10 12"
  "step (seen_sentence cb) tag7_sentence 10 13"
  "step (seen_sentence cb) tag7_sentence 10 14"
  "step (seen_sentence cb) tag7_sentence 10 15"
  by (simp_all add: step_def crossing_def seen_sentence_def seen_words_def seen_flushed_def tag7_bytes run_all)

lemma sentence_step_11:
  "step (seen_sentence cb) tag7_sentence 11 11"
  "step (seen_sentence cb) tag7_sentence 11 12"
  "step (seen_sentence cb) tag7_sentence 11 13"
  "step (seen_sentence cb) tag7_sentence 11 14"
  "step (seen_sentence cb) tag7_sentence 11 15"
  by (simp_all add: step_def crossing_def seen_sentence_def seen_words_def seen_flushed_def tag7_bytes run_all)

lemma sentence_step_12:
  "step (seen_sentence cb) tag7_sentence 12 12"
  "step (seen_sentence cb) tag7_sentence 12 13"
  "step (seen_sentence cb) tag7_sentence 12 14"
  "step (seen_sentence cb) tag7_sentence 12 15"
  by (simp_all add: step_def crossing_def seen_sentence_def seen_words_def seen_flushed_def tag7_bytes run_all)

lemma sentence_step_13:
  "step (seen_sentence cb) tag7_sentence 13 13"
  "step (seen_sentence cb) tag7_sentence 13 14"
  "step (seen_sentence cb) tag7_sentence 13 15"
  by (simp_all add: step_def crossing_def seen_sentence_def seen_words_def seen_flushed_def tag7_bytes run_all)

lemma sentence_step_14:
  "step (seen_sentence cb) tag7_sentence 14 14"
  "step (seen_sentence cb) tag7_sentence 14 15"
  by (simp_all add: step_def crossing_def seen_sentence_def seen_words_def seen_flushed_def tag7_bytes run_all)

lemma sentence_step_15:
  "step (seen_sentence cb) tag7_sentence 15 15"
  by (simp_all add: step_def crossing_def seen_sentence_def seen_words_def seen_flushed_def tag7_bytes run_all)

lemma sentence_step_row_0: "list_all (step (seen_sentence cb) tag7_sentence 0) [0..<16]"
  unfolding positions_below_16(1) by (simp only: list.pred_inject sentence_step_0 simp_thms)

lemma sentence_step_row_1: "list_all (step (seen_sentence cb) tag7_sentence 1) [1..<16]"
  unfolding positions_below_16(2) by (simp only: list.pred_inject sentence_step_1 simp_thms)

lemma sentence_step_row_2: "list_all (step (seen_sentence cb) tag7_sentence 2) [2..<16]"
  unfolding positions_below_16(3) by (simp only: list.pred_inject sentence_step_2 simp_thms)

lemma sentence_step_row_3: "list_all (step (seen_sentence cb) tag7_sentence 3) [3..<16]"
  unfolding positions_below_16(4) by (simp only: list.pred_inject sentence_step_3 simp_thms)

lemma sentence_step_row_4: "list_all (step (seen_sentence cb) tag7_sentence 4) [4..<16]"
  unfolding positions_below_16(5) by (simp only: list.pred_inject sentence_step_4 simp_thms)

lemma sentence_step_row_5: "list_all (step (seen_sentence cb) tag7_sentence 5) [5..<16]"
  unfolding positions_below_16(6) by (simp only: list.pred_inject sentence_step_5 simp_thms)

lemma sentence_step_row_6: "list_all (step (seen_sentence cb) tag7_sentence 6) [6..<16]"
  unfolding positions_below_16(7) by (simp only: list.pred_inject sentence_step_6 simp_thms)

lemma sentence_step_row_7: "list_all (step (seen_sentence cb) tag7_sentence 7) [7..<16]"
  unfolding positions_below_16(8) by (simp only: list.pred_inject sentence_step_7 simp_thms)

lemma sentence_step_row_8: "list_all (step (seen_sentence cb) tag7_sentence 8) [8..<16]"
  unfolding positions_below_16(9) by (simp only: list.pred_inject sentence_step_8 simp_thms)

lemma sentence_step_row_9: "list_all (step (seen_sentence cb) tag7_sentence 9) [9..<16]"
  unfolding positions_below_16(10) by (simp only: list.pred_inject sentence_step_9 simp_thms)

lemma sentence_step_row_10: "list_all (step (seen_sentence cb) tag7_sentence 10) [10..<16]"
  unfolding positions_below_16(11) by (simp only: list.pred_inject sentence_step_10 simp_thms)

lemma sentence_step_row_11: "list_all (step (seen_sentence cb) tag7_sentence 11) [11..<16]"
  unfolding positions_below_16(12) by (simp only: list.pred_inject sentence_step_11 simp_thms)

lemma sentence_step_row_12: "list_all (step (seen_sentence cb) tag7_sentence 12) [12..<16]"
  unfolding positions_below_16(13) by (simp only: list.pred_inject sentence_step_12 simp_thms)

lemma sentence_step_row_13: "list_all (step (seen_sentence cb) tag7_sentence 13) [13..<16]"
  unfolding positions_below_16(14) by (simp only: list.pred_inject sentence_step_13 simp_thms)

lemma sentence_step_row_14: "list_all (step (seen_sentence cb) tag7_sentence 14) [14..<16]"
  unfolding positions_below_16(15) by (simp only: list.pred_inject sentence_step_14 simp_thms)

lemma sentence_step_row_15: "list_all (step (seen_sentence cb) tag7_sentence 15) [15..<16]"
  unfolding positions_below_16(16) by (simp only: list.pred_inject sentence_step_15 simp_thms)

lemma sentence_steps: "list_all (\<lambda>k. list_all (step (seen_sentence cb) tag7_sentence k) [k..<16]) [0..<16]"
  unfolding positions_below_16(1) by (simp only: list.pred_inject sentence_step_row_0 sentence_step_row_1 sentence_step_row_2 sentence_step_row_3 sentence_step_row_4 sentence_step_row_5 sentence_step_row_6 sentence_step_row_7 sentence_step_row_8 sentence_step_row_9 sentence_step_row_10 sentence_step_row_11 sentence_step_row_12 sentence_step_row_13 sentence_step_row_14 sentence_step_row_15 simp_thms)

lemma words_step_0:
  "step (seen_words cb) tag7_words 0 0"
  "step (seen_words cb) tag7_words 0 1"
  "step (seen_words cb) tag7_words 0 2"
  "step (seen_words cb) tag7_words 0 3"
  "step (seen_words cb) tag7_words 0 4"
  "step (seen_words cb) tag7_words 0 5"
  "step (seen_words cb) tag7_words 0 6"
  "step (seen_words cb) tag7_words 0 7"
  "step (seen_words cb) tag7_words 0 9"
  "step (seen_words cb) tag7_words 0 10"
  "step (seen_words cb) tag7_words 0 11"
  "step (seen_words cb) tag7_words 0 12"
  "step (seen_words cb) tag7_words 0 13"
  "step (seen_words cb) tag7_words 0 14"
  "step (seen_words cb) tag7_words 0 15"
  "step (seen_words cb) tag7_words 0 16"
  by (simp_all add: step_def crossing_def seen_sentence_def seen_words_def seen_flushed_def tag7_bytes run_all)

lemma words_step_1:
  "step (seen_words cb) tag7_words 1 1"
  "step (seen_words cb) tag7_words 1 2"
  "step (seen_words cb) tag7_words 1 3"
  "step (seen_words cb) tag7_words 1 4"
  "step (seen_words cb) tag7_words 1 5"
  "step (seen_words cb) tag7_words 1 6"
  "step (seen_words cb) tag7_words 1 7"
  "step (seen_words cb) tag7_words 1 9"
  "step (seen_words cb) tag7_words 1 10"
  "step (seen_words cb) tag7_words 1 11"
  "step (seen_words cb) tag7_words 1 12"
  "step (seen_words cb) tag7_words 1 13"
  "step (seen_words cb) tag7_words 1 14"
  "step (seen_words cb) tag7_words 1 15"
  "step (seen_words cb) tag7_words 1 16"
  by (simp_all add: step_def crossing_def seen_sentence_def seen_words_def seen_flushed_def tag7_bytes run_all)

lemma words_step_2:
  "step (seen_words cb) tag7_words 2 2"
  "step (seen_words cb) tag7_words 2 3"
  "step (seen_words cb) tag7_words 2 4"
  "step (seen_words cb) tag7_words 2 5"
  "step (seen_words cb) tag7_words 2 6"
  "step (seen_words cb) tag7_words 2 7"
  "step (seen_words cb) tag7_words 2 9"
  "step (seen_words cb) tag7_words 2 10"
  "step (seen_words cb) tag7_words 2 11"
  "step (seen_words cb) tag7_words 2 12"
  "step (seen_words cb) tag7_words 2 13"
  "step (seen_words cb) tag7_words 2 14"
  "step (seen_words cb) tag7_words 2 15"
  "step (seen_words cb) tag7_words 2 16"
  by (simp_all add: step_def crossing_def seen_sentence_def seen_words_def seen_flushed_def tag7_bytes run_all)

lemma words_step_3:
  "step (seen_words cb) tag7_words 3 3"
  "step (seen_words cb) tag7_words 3 4"
  "step (seen_words cb) tag7_words 3 5"
  "step (seen_words cb) tag7_words 3 6"
  "step (seen_words cb) tag7_words 3 7"
  "step (seen_words cb) tag7_words 3 9"
  "step (seen_words cb) tag7_words 3 10"
  "step (seen_words cb) tag7_words 3 11"
  "step (seen_words cb) tag7_words 3 12"
  "step (seen_words cb) tag7_words 3 13"
  "step (seen_words cb) tag7_words 3 14"
  "step (seen_words cb) tag7_words 3 15"
  "step (seen_words cb) tag7_words 3 16"
  by (simp_all add: step_def crossing_def seen_sentence_def seen_words_def seen_flushed_def tag7_bytes run_all)

lemma words_step_4:
  "step (seen_words cb) tag7_words 4 4"
  "step (seen_words cb) tag7_words 4 5"
  "step (seen_words cb) tag7_words 4 6"
  "step (seen_words cb) tag7_words 4 7"
  "step (seen_words cb) tag7_words 4 9"
  "step (seen_words cb) tag7_words 4 10"
  "step (seen_words cb) tag7_words 4 11"
  "step (seen_words cb) tag7_words 4 12"
  "step (seen_words cb) tag7_words 4 13"
  "step (seen_words cb) tag7_words 4 14"
  "step (seen_words cb) tag7_words 4 15"
  "step (seen_words cb) tag7_words 4 16"
  by (simp_all add: step_def crossing_def seen_sentence_def seen_words_def seen_flushed_def tag7_bytes run_all)

lemma words_step_5:
  "step (seen_words cb) tag7_words 5 5"
  "step (seen_words cb) tag7_words 5 6"
  "step (seen_words cb) tag7_words 5 7"
  "step (seen_words cb) tag7_words 5 9"
  "step (seen_words cb) tag7_words 5 10"
  "step (seen_words cb) tag7_words 5 11"
  "step (seen_words cb) tag7_words 5 12"
  "step (seen_words cb) tag7_words 5 13"
  "step (seen_words cb) tag7_words 5 14"
  "step (seen_words cb) tag7_words 5 15"
  "step (seen_words cb) tag7_words 5 16"
  by (simp_all add: step_def crossing_def seen_sentence_def seen_words_def seen_flushed_def tag7_bytes run_all)

lemma words_step_6:
  "step (seen_words cb) tag7_words 6 6"
  "step (seen_words cb) tag7_words 6 7"
  "step (seen_words cb) tag7_words 6 9"
  "step (seen_words cb) tag7_words 6 10"
  "step (seen_words cb) tag7_words 6 11"
  "step (seen_words cb) tag7_words 6 12"
  "step (seen_words cb) tag7_words 6 13"
  "step (seen_words cb) tag7_words 6 14"
  "step (seen_words cb) tag7_words 6 15"
  "step (seen_words cb) tag7_words 6 16"
  by (simp_all add: step_def crossing_def seen_sentence_def seen_words_def seen_flushed_def tag7_bytes run_all)

lemma words_step_7:
  "step (seen_words cb) tag7_words 7 7"
  "step (seen_words cb) tag7_words 7 8"
  "step (seen_words cb) tag7_words 7 9"
  "step (seen_words cb) tag7_words 7 10"
  "step (seen_words cb) tag7_words 7 11"
  "step (seen_words cb) tag7_words 7 12"
  "step (seen_words cb) tag7_words 7 13"
  "step (seen_words cb) tag7_words 7 14"
  "step (seen_words cb) tag7_words 7 15"
  "step (seen_words cb) tag7_words 7 16"
  by (simp_all add: step_def crossing_def seen_sentence_def seen_words_def seen_flushed_def tag7_bytes run_all)

lemma words_step_8:
  "step (seen_words cb) tag7_words 8 8"
  "step (seen_words cb) tag7_words 8 9"
  "step (seen_words cb) tag7_words 8 10"
  "step (seen_words cb) tag7_words 8 11"
  "step (seen_words cb) tag7_words 8 12"
  "step (seen_words cb) tag7_words 8 13"
  "step (seen_words cb) tag7_words 8 14"
  "step (seen_words cb) tag7_words 8 15"
  "step (seen_words cb) tag7_words 8 16"
  by (simp_all add: step_def crossing_def seen_sentence_def seen_words_def seen_flushed_def tag7_bytes run_all)

lemma words_step_9:
  "step (seen_words cb) tag7_words 9 9"
  "step (seen_words cb) tag7_words 9 10"
  "step (seen_words cb) tag7_words 9 11"
  "step (seen_words cb) tag7_words 9 12"
  "step (seen_words cb) tag7_words 9 13"
  "step (seen_words cb) tag7_words 9 14"
  "step (seen_words cb) tag7_words 9 15"
  "step (seen_words cb) tag7_words 9 16"
  by (simp_all add: step_def crossing_def seen_sentence_def seen_words_def seen_flushed_def tag7_bytes run_all)

lemma words_step_10:
  "step (seen_words cb) tag7_words 10 10"
  "step (seen_words cb) tag7_words 10 11"
  "step (seen_words cb) tag7_words 10 12"
  "step (seen_words cb) tag7_words 10 13"
  "step (seen_words cb) tag7_words 10 14"
  "step (seen_words cb) tag7_words 10 15"
  "step (seen_words cb) tag7_words 10 16"
  by (simp_all add: step_def crossing_def seen_sentence_def seen_words_def seen_flushed_def tag7_bytes run_all)

lemma words_step_11:
  "step (seen_words cb) tag7_words 11 11"
  "step (seen_words cb) tag7_words 11 12"
  "step (seen_words cb) tag7_words 11 13"
  "step (seen_words cb) tag7_words 11 14"
  "step (seen_words cb) tag7_words 11 15"
  "step (seen_words cb) tag7_words 11 16"
  by (simp_all add: step_def crossing_def seen_sentence_def seen_words_def seen_flushed_def tag7_bytes run_all)

lemma words_step_12:
  "step (seen_words cb) tag7_words 12 12"
  "step (seen_words cb) tag7_words 12 13"
  "step (seen_words cb) tag7_words 12 14"
  "step (seen_words cb) tag7_words 12 15"
  "step (seen_words cb) tag7_words 12 16"
  by (simp_all add: step_def crossing_def seen_sentence_def seen_words_def seen_flushed_def tag7_bytes run_all)

lemma words_step_13:
  "step (seen_words cb) tag7_words 13 13"
  "step (seen_words cb) tag7_words 13 14"
  "step (seen_words cb) tag7_words 13 15"
  "step (seen_words cb) tag7_words 13 16"
  by (simp_all add: step_def crossing_def seen_sentence_def seen_words_def seen_flushed_def tag7_bytes run_all)

lemma words_step_14:
  "step (seen_words cb) tag7_words 14 14"
  "step (seen_words cb) tag7_words 14 15"
  "step (seen_words cb) tag7_words 14 16"
  by (simp_all add: step_def crossing_def seen_sentence_def seen_words_def seen_flushed_def tag7_bytes run_all)

lemma words_step_15:
  "step (seen_words cb) tag7_words 15 15"
  "step (seen_words cb) tag7_words 15 16"
  by (simp_all add: step_def crossing_def seen_sentence_def seen_words_def seen_flushed_def tag7_bytes run_all)

lemma words_step_16:
  "step (seen_words cb) tag7_words 16 16"
  by (simp_all add: step_def crossing_def seen_sentence_def seen_words_def seen_flushed_def tag7_bytes run_all)

lemma words_step_row_0: "list_all (step (seen_words cb) tag7_words 0) ([0..<8] @ [9..<17])"
  unfolding positions_below_8(1) positions_below_17(10)
  by (simp only: append.simps list.pred_inject words_step_0 simp_thms)

lemma words_step_row_1: "list_all (step (seen_words cb) tag7_words 1) ([1..<8] @ [9..<17])"
  unfolding positions_below_8(2) positions_below_17(10)
  by (simp only: append.simps list.pred_inject words_step_1 simp_thms)

lemma words_step_row_2: "list_all (step (seen_words cb) tag7_words 2) ([2..<8] @ [9..<17])"
  unfolding positions_below_8(3) positions_below_17(10)
  by (simp only: append.simps list.pred_inject words_step_2 simp_thms)

lemma words_step_row_3: "list_all (step (seen_words cb) tag7_words 3) ([3..<8] @ [9..<17])"
  unfolding positions_below_8(4) positions_below_17(10)
  by (simp only: append.simps list.pred_inject words_step_3 simp_thms)

lemma words_step_row_4: "list_all (step (seen_words cb) tag7_words 4) ([4..<8] @ [9..<17])"
  unfolding positions_below_8(5) positions_below_17(10)
  by (simp only: append.simps list.pred_inject words_step_4 simp_thms)

lemma words_step_row_5: "list_all (step (seen_words cb) tag7_words 5) ([5..<8] @ [9..<17])"
  unfolding positions_below_8(6) positions_below_17(10)
  by (simp only: append.simps list.pred_inject words_step_5 simp_thms)

lemma words_step_row_6: "list_all (step (seen_words cb) tag7_words 6) ([6..<8] @ [9..<17])"
  unfolding positions_below_8(7) positions_below_17(10)
  by (simp only: append.simps list.pred_inject words_step_6 simp_thms)

lemma words_step_row_7: "list_all (step (seen_words cb) tag7_words 7) [7..<17]"
  unfolding positions_below_17(8) by (simp only: list.pred_inject words_step_7 simp_thms)

lemma words_step_row_8: "list_all (step (seen_words cb) tag7_words 8) [8..<17]"
  unfolding positions_below_17(9) by (simp only: list.pred_inject words_step_8 simp_thms)

lemma words_step_row_9: "list_all (step (seen_words cb) tag7_words 9) [9..<17]"
  unfolding positions_below_17(10) by (simp only: list.pred_inject words_step_9 simp_thms)

lemma words_step_row_10: "list_all (step (seen_words cb) tag7_words 10) [10..<17]"
  unfolding positions_below_17(11) by (simp only: list.pred_inject words_step_10 simp_thms)

lemma words_step_row_11: "list_all (step (seen_words cb) tag7_words 11) [11..<17]"
  unfolding positions_below_17(12) by (simp only: list.pred_inject words_step_11 simp_thms)

lemma words_step_row_12: "list_all (step (seen_words cb) tag7_words 12) [12..<17]"
  unfolding positions_below_17(13) by (simp only: list.pred_inject words_step_12 simp_thms)

lemma words_step_row_13: "list_all (step (seen_words cb) tag7_words 13) [13..<17]"
  unfolding positions_below_17(14) by (simp only: list.pred_inject words_step_13 simp_thms)

lemma words_step_row_14: "list_all (step (seen_words cb) tag7_words 14) [14..<17]"
  unfolding positions_below_17(15) by (simp only: list.pred_inject words_step_14 simp_thms)

lemma words_step_row_15: "list_all (step (seen_words cb) tag7_words 15) [15..<17]"
  unfolding positions_below_17(16) by (simp only: list.pred_inject words_step_15 simp_thms)

lemma words_step_row_16: "list_all (step (seen_words cb) tag7_words 16) [16..<17]"
  unfolding positions_below_17(17) by (simp only: list.pred_inject words_step_16 simp_thms)

lemma words_steps_low: "list_all (\<lambda>k. list_all (step (seen_words cb) tag7_words k) ([k..<8] @ [9..<17])) [0..<7]"
  unfolding positions_below_7(1) by (simp only: list.pred_inject words_step_row_0 words_step_row_1 words_step_row_2 words_step_row_3 words_step_row_4 words_step_row_5 words_step_row_6 simp_thms)

lemma words_steps_high: "list_all (\<lambda>k. list_all (step (seen_words cb) tag7_words k) [k..<17]) [7..<17]"
  unfolding positions_below_17(8) by (simp only: list.pred_inject words_step_row_7 words_step_row_8 words_step_row_9 words_step_row_10 words_step_row_11 words_step_row_12 words_step_row_13 words_step_row_14 words_step_row_15 words_step_row_16 simp_thms)

lemma flushed_step_8:
  "step (seen_flushed cb) tag7_words 8 8"
  "step (seen_flushed cb) tag7_words 8 9"
  "step (seen_flushed cb) tag7_words 8 10"
  "step (seen_flushed cb) tag7_words 8 11"
  "step (seen_flushed cb) tag7_words 8 12"
  "step (seen_flushed cb) tag7_words 8 13"
  "step (seen_flushed cb) tag7_words 8 14"
  "step (seen_flushed cb) tag7_words 8 15"
  "step (seen_flushed cb) tag7_words 8 16"
  by (simp_all add: step_def crossing_def seen_sentence_def seen_words_def seen_flushed_def tag7_bytes run_all)

lemma flushed_step_9:
  "step (seen_flushed cb) tag7_words 9 9"
  "step (seen_flushed cb) tag7_words 9 10"
  "step (seen_flushed cb) tag7_words 9 11"
  "step (seen_flushed cb) tag7_words 9 12"
  "step (seen_flushed cb) tag7_words 9 13"
  "step (seen_flushed cb) tag7_words 9 14"
  "step (seen_flushed cb) tag7_words 9 15"
  "step (seen_flushed cb) tag7_words 9 16"
  by (simp_all add: step_def crossing_def seen_sentence_def seen_words_def seen_flushed_def tag7_bytes run_all)

lemma flushed_step_10:
  "step (seen_flushed cb) tag7_words 10 10"
  "step (seen_flushed cb) tag7_words 10 11"
  "step (seen_flushed cb) tag7_words 10 12"
  "step (seen_flushed cb) tag7_words 10 13"
  "step (seen_flushed cb) tag7_words 10 14"
  "step (seen_flushed cb) tag7_words 10 15"
  "step (seen_flushed cb) tag7_words 10 16"
  by (simp_all add: step_def crossing_def seen_sentence_def seen_words_def seen_flushed_def tag7_bytes run_all)

lemma flushed_step_11:
  "step (seen_flushed cb) tag7_words 11 11"
  "step (seen_flushed cb) tag7_words 11 12"
  "step (seen_flushed cb) tag7_words 11 13"
  "step (seen_flushed cb) tag7_words 11 14"
  "step (seen_flushed cb) tag7_words 11 15"
  "step (seen_flushed cb) tag7_words 11 16"
  by (simp_all add: step_def crossing_def seen_sentence_def seen_words_def seen_flushed_def tag7_bytes run_all)

lemma flushed_step_12:
  "step (seen_flushed cb) tag7_words 12 12"
  "step (seen_flushed cb) tag7_words 12 13"
  "step (seen_flushed cb) tag7_words 12 14"
  "step (seen_flushed cb) tag7_words 12 15"
  "step (seen_flushed cb) tag7_words 12 16"
  by (simp_all add: step_def crossing_def seen_sentence_def seen_words_def seen_flushed_def tag7_bytes run_all)

lemma flushed_step_13:
  "step (seen_flushed cb) tag7_words 13 13"
  "step (seen_flushed cb) tag7_words 13 14"
  "step (seen_flushed cb) tag7_words 13 15"
  "step (seen_flushed cb) tag7_words 13 16"
  by (simp_all add: step_def crossing_def seen_sentence_def seen_words_def seen_flushed_def tag7_bytes run_all)

lemma flushed_step_14:
  "step (seen_flushed cb) tag7_words 14 14"
  "step (seen_flushed cb) tag7_words 14 15"
  "step (seen_flushed cb) tag7_words 14 16"
  by (simp_all add: step_def crossing_def seen_sentence_def seen_words_def seen_flushed_def tag7_bytes run_all)

lemma flushed_step_15:
  "step (seen_flushed cb) tag7_words 15 15"
  "step (seen_flushed cb) tag7_words 15 16"
  by (simp_all add: step_def crossing_def seen_sentence_def seen_words_def seen_flushed_def tag7_bytes run_all)

lemma flushed_step_16:
  "step (seen_flushed cb) tag7_words 16 16"
  by (simp_all add: step_def crossing_def seen_sentence_def seen_words_def seen_flushed_def tag7_bytes run_all)

lemma flushed_step_row_8: "list_all (step (seen_flushed cb) tag7_words 8) [8..<17]"
  unfolding positions_below_17(9) by (simp only: list.pred_inject flushed_step_8 simp_thms)

lemma flushed_step_row_9: "list_all (step (seen_flushed cb) tag7_words 9) [9..<17]"
  unfolding positions_below_17(10) by (simp only: list.pred_inject flushed_step_9 simp_thms)

lemma flushed_step_row_10: "list_all (step (seen_flushed cb) tag7_words 10) [10..<17]"
  unfolding positions_below_17(11) by (simp only: list.pred_inject flushed_step_10 simp_thms)

lemma flushed_step_row_11: "list_all (step (seen_flushed cb) tag7_words 11) [11..<17]"
  unfolding positions_below_17(12) by (simp only: list.pred_inject flushed_step_11 simp_thms)

lemma flushed_step_row_12: "list_all (step (seen_flushed cb) tag7_words 12) [12..<17]"
  unfolding positions_below_17(13) by (simp only: list.pred_inject flushed_step_12 simp_thms)

lemma flushed_step_row_13: "list_all (step (seen_flushed cb) tag7_words 13) [13..<17]"
  unfolding positions_below_17(14) by (simp only: list.pred_inject flushed_step_13 simp_thms)

lemma flushed_step_row_14: "list_all (step (seen_flushed cb) tag7_words 14) [14..<17]"
  unfolding positions_below_17(15) by (simp only: list.pred_inject flushed_step_14 simp_thms)

lemma flushed_step_row_15: "list_all (step (seen_flushed cb) tag7_words 15) [15..<17]"
  unfolding positions_below_17(16) by (simp only: list.pred_inject flushed_step_15 simp_thms)

lemma flushed_step_row_16: "list_all (step (seen_flushed cb) tag7_words 16) [16..<17]"
  unfolding positions_below_17(17) by (simp only: list.pred_inject flushed_step_16 simp_thms)

lemma flushed_steps: "list_all (\<lambda>k. list_all (step (seen_flushed cb) tag7_words k) [k..<17]) [8..<17]"
  unfolding positions_below_17(9) by (simp only: list.pred_inject flushed_step_row_8 flushed_step_row_9 flushed_step_row_10 flushed_step_row_11 flushed_step_row_12 flushed_step_row_13 flushed_step_row_14 flushed_step_row_15 flushed_step_row_16 simp_thms)

lemma crossing_cases:
  "crossing cb 0"
  "crossing cb 1"
  "crossing cb 2"
  "crossing cb 3"
  "crossing cb 4"
  "crossing cb 5"
  "crossing cb 6"
  by (simp_all add: step_def crossing_def seen_sentence_def seen_words_def seen_flushed_def tag7_bytes run_all)

lemma crossings: "list_all (crossing cb) [0..<7]"
  unfolding positions_below_7(1) by (simp only: list.pred_inject crossing_cases simp_thms)

lemma feed_steps:
  assumes steps: "\<And>k j. lo \<le> k \<Longrightarrow> k \<le> j \<Longrightarrow> j \<le> hi \<Longrightarrow> step st w k j"
  shows "lo \<le> k \<Longrightarrow> k + length (concat cs) \<le> hi \<Longrightarrow>
         concat cs = take (length (concat cs)) (drop k w) \<Longrightarrow>
         feed (st k) cs = st (k + length (concat cs))"
proof (induction cs arbitrary: k)
  case Nil
  then show ?case by (simp add: feed_def)
next
  case (Cons c cs)
  let ?m = "length c" and ?n = "length (concat cs)"
  have whole: "c @ concat cs = take (?m + ?n) (drop k w)"
    using Cons.prems(3) by simp
  have "take ?m (c @ concat cs) = take ?m (take (?m + ?n) (drop k w))"
    by (simp only: whole)
  then have c: "c = take ?m (drop k w)"
    by simp
  have "drop ?m (c @ concat cs) = drop ?m (take (?m + ?n) (drop k w))"
    by (simp only: whole)
  then have rest: "concat cs = take ?n (drop (k + ?m) w)"
    by (simp add: drop_take add.commute)
  have "step st w k (k + ?m)"
    using Cons.prems(1,2) by (intro steps) simp_all
  then have one: "processRawData (st k) c = st (k + ?m)"
    using c by (simp add: step_def)
  have "feed (st (k + ?m)) cs = st (k + ?m + ?n)"
    using Cons.prems(1,2) rest by (intro Cons.IH) simp_all
  then show ?case
    using one by (simp add: feed_def add.assoc)
qed


lemma list_all_nested:
  assumes "list_all (\<lambda>k. list_all (P k) (js k)) ks" and "k \<in> set ks" and "j \<in> set (js k)"
  shows "P k j"
  using assms unfolding list_all_iff by blast

lemma in_upt:
  assumes "a \<le> k" and "k < b"
  shows "k \<in> set [a..<b]"
  unfolding set_upt atLeastLessThan_iff using assms by (rule conjI)

lemma sentence_step:
  assumes "k \<le> j" and "j \<le> 15"
  shows "step (seen_sentence cb) tag7_sentence k j"
  by (rule list_all_nested[OF sentence_steps]; rule in_upt) (use assms in linarith)+

lemma words_step_low:
  assumes "k \<le> 6" and "k \<le> j" and "j \<le> 16" and "j \<noteq> 8"
  shows "step (seen_words cb) tag7_words k j"
  by (rule list_all_nested[OF words_steps_low]) (use assms in auto)

lemma words_step_high:
  assumes "7 \<le> k" and "k \<le> j" and "j \<le> 16"
  shows "step (seen_words cb) tag7_words k j"
  by (rule list_all_nested[OF words_steps_high]; rule in_upt) (use assms in linarith)+

lemma flushed_step:
  assumes "8 \<le> k" and "k \<le> j" and "j \<le> 16"
  shows "step (seen_flushed cb) tag7_words k j"
  by (rule list_all_nested[OF flushed_steps]; rule in_upt) (use assms in linarith)+

lemma crossing_low:
  assumes "k \<le> 6"
  shows "crossing cb k"
proof -
  have "k \<in> set [0..<7]"
    using assms by simp
  with crossings[of cb] show ?thesis
    unfolding list_all_iff by blast
qed

lemma tag7_outcomes:
  "seen_sentence cb 0 = read ''7'' cb Receiver"
  "seen_words cb 0 = read ''7'' cb Receiver"
  "effects (seen_sentence cb 15) = [Called ''7'' [''!done'']]"
  "effects (seen_words cb 16) = [Called ''7'' [''!done'']]"
  "effects (seen_flushed cb 16) = [Called ''7'' []]"
  by (simp_all add: seen_sentence_def seen_words_def seen_flushed_def tag7_bytes run_all)

lemma tag7_lengths: "length tag7_sentence = 15" "length tag7_words = 16"
  by (simp_all add: tag7_bytes)

lemma cut_at_0 [simp]: "cut_at 0 cs"
  by (cases cs) simp_all

lemma sentence_chunks:
  assumes "concat chunks = tag7_sentence"
  shows "feed (read ''7'' cb Receiver) chunks = seen_sentence cb 15"
  using feed_steps[of 0 15 "seen_sentence cb" tag7_sentence 0 chunks] assms
  by (simp add: sentence_step tag7_lengths tag7_outcomes)

lemma words_chunks_open:
  assumes "7 \<le> k" and "k \<le> 16" and "concat cs = drop k tag7_words"
  shows "feed (seen_words cb k) cs = seen_words cb 16"
  using feed_steps[of 7 16 "seen_words cb" tag7_words k cs] assms
  by (simp add: words_step_high tag7_lengths)

lemma words_chunks_flushed:
  assumes "concat cs = drop 8 tag7_words"
  shows "feed (seen_flushed cb 8) cs = seen_flushed cb 16"
  using feed_steps[of 8 16 "seen_flushed cb" tag7_words 8 cs] assms
  by (simp add: flushed_step tag7_lengths)

lemma words_chunks:
  "k \<le> 16 \<Longrightarrow> concat cs = drop k tag7_words \<Longrightarrow>
   effects (feed (seen_words cb k) cs) =
     (if k \<le> 6 \<and> cut_at (8 - k) cs \<and> \<not> cut_at (7 - k) cs then [Called ''7'' []]
      else [Called ''7'' [''!done'']])"
proof (induction cs arbitrary: k)
  case Nil
  then have "k = 16"
    by (simp add: tag7_lengths)
  then show ?case
    by (simp add: feed_def tag7_outcomes)
next
  case (Cons c cs)
  let ?m = "length c"
  have whole: "c @ concat cs = drop k tag7_words"
    using Cons.prems(2) by simp
  have "length (c @ concat cs) = 16 - k"
    by (simp only: whole) (simp add: tag7_lengths)
  then have len: "k + ?m \<le> 16"
    using Cons.prems(1) by simp
  have "take ?m (c @ concat cs) = take ?m (drop k tag7_words)"
    by (simp only: whole)
  then have c: "c = take ?m (drop k tag7_words)"
    by simp
  have "drop ?m (c @ concat cs) = drop ?m (drop k tag7_words)"
    by (simp only: whole)
  then have rest: "concat cs = drop (k + ?m) tag7_words"
    by (simp add: add.commute)
  show ?case
  proof (cases "7 \<le> k")
    case True
    then show ?thesis
      using words_chunks_open[OF True Cons.prems(1) Cons.prems(2), of cb]
      by (simp add: tag7_outcomes)
  next
    case low: False
    show ?thesis
    proof (cases "k + ?m = 8")
      case True
      have "crossing cb k"
        using low by (intro crossing_low) simp
      then have "processRawData (seen_words cb k) c = seen_flushed cb 8"
        using c True by (simp add: crossing_def) (metis add_diff_cancel_left')
      moreover have "feed (seen_flushed cb 8) cs = seen_flushed cb 16"
        using rest True by (intro words_chunks_flushed) simp
      ultimately have "effects (feed (seen_words cb k) (c # cs)) = [Called ''7'' []]"
        by (simp add: feed_def tag7_outcomes)
      moreover have "cut_at (8 - k) (c # cs)" "\<not> cut_at (7 - k) (c # cs)"
        using low True by auto
      ultimately show ?thesis
        using low by simp
    next
      case False
      have "step (seen_words cb) tag7_words k (k + ?m)"
        using low len False by (intro words_step_low) simp_all
      then have "processRawData (seen_words cb k) c = seen_words cb (k + ?m)"
        using c by (simp add: step_def)
      then have "effects (feed (seen_words cb k) (c # cs)) =
                 effects (feed (seen_words cb (k + ?m)) cs)"
        by (simp add: feed_def)
      also have "\<dots> =
        (if k + ?m \<le> 6 \<and> cut_at (8 - (k + ?m)) cs \<and> \<not> cut_at (7 - (k + ?m)) cs
         then [Called ''7'' []] else [Called ''7'' [''!done'']])"
        using len rest by (intro Cons.IH)
      also have "(k + ?m \<le> 6 \<and> cut_at (8 - (k + ?m)) cs \<and> \<not> cut_at (7 - (k + ?m)) cs) =
                 (k \<le> 6 \<and> cut_at (8 - k) (c # cs) \<and> \<not> cut_at (7 - k) (c # cs))"
      proof (cases "k + ?m \<le> 6")
        case True
        then show ?thesis by (auto simp: diff_diff_left)
      next
        case beyond: False
        show ?thesis
        proof (cases "k + ?m = 7")
          case True
          then have "7 - k - ?m = 0" by simp
          with beyond True show ?thesis by auto
        next
          case far: False
          with low beyond False have "\<not> ?m \<le> 8 - k" by arith
          with beyond show ?thesis by auto
        qed
      qed
      finally show ?thesis .
    qed
  qed
qed


text \<open>
  Claim C4, amended. With a callback registered for tag 7, the words \<^verbatim>\<open>.tag=7\<close> and
  \<^verbatim>\<open>!empty\<close> followed by one terminator dispatch exactly one packet to that callback,
  \<^verbatim>\<open>["!done"]\<close>, however the bytes are cut into chunks. With a terminator behind each of
  the two words exactly one packet is dispatched as well. It is \<^verbatim>\<open>["!done"]\<close>, unless a chunk
  that holds the last byte of \<^verbatim>\<open>.tag=7\<close> ends with the first terminator (a chunk ends after
  byte 8 and none after byte 7): then the empty packet is dispatched when that chunk ends,
  the tag is closed, and \<^verbatim>\<open>!empty\<close> is ignored. An \<^verbatim>\<open>!empty\<close> met while no tag is open
  leaves the receiver as it is: nothing is logged and nothing is dispatched. Met while a tag
  is open, it adds \<^verbatim>\<open>!done\<close> to the packet and flushes it to that tag.
\<close>

theorem empty_reply:
  "(concat chunks = tag7_sentence \<longrightarrow>
      effects (feed (read ''7'' cb Receiver) chunks) = [Called ''7'' [''!done'']]) \<and>
   (concat chunks = tag7_words \<longrightarrow>
      effects (feed (read ''7'' cb Receiver) chunks) =
        (if cut_at 8 chunks \<and> \<not> cut_at 7 chunks then [Called ''7'' []]
         else [Called ''7'' [''!done'']])) \<and>
   (drained s \<and> open_tag s = None \<longrightarrow>
      processSentence (push_sentence ''!empty'' h s) = s) \<and>
   (drained s \<and> open_tag s = Some t \<longrightarrow>
      processSentence (push_sentence ''!empty'' h s) =
        sendTagData (s\<lparr>currentPacket := currentPacket s @ [''!done'']\<rparr>) t)"
proof (intro conjI impI)
  show "effects (feed (read ''7'' cb Receiver) chunks) = [Called ''7'' [''!done'']]"
    if "concat chunks = tag7_sentence"
    using sentence_chunks[OF that, of cb] by (simp add: tag7_outcomes)
  show "effects (feed (read ''7'' cb Receiver) chunks) =
        (if cut_at 8 chunks \<and> \<not> cut_at 7 chunks then [Called ''7'' []]
         else [Called ''7'' [''!done'']])"
    if "concat chunks = tag7_words"
    using words_chunks[of 0 chunks cb] that by (simp add: tag7_outcomes)
  show "processSentence (push_sentence ''!empty'' h s) = s"
    if "drained s \<and> open_tag s = None"
    using that processSentence_one[of s "''!empty''" h] by simp
  show "processSentence (push_sentence ''!empty'' h s) =
        sendTagData (s\<lparr>currentPacket := currentPacket s @ [''!done'']\<rparr>) t"
    if "drained s \<and> open_tag s = Some t"
    using that processSentence_one[of s "''!empty''" h] by simp
qed

theorem empty_reply_witness:
  "concat [take 3 tag7_sentence, drop 3 tag7_sentence] = tag7_sentence \<and>
   effects (feed (read ''7'' (\<lambda>p. Returned) Receiver)
              [take 3 tag7_sentence, drop 3 tag7_sentence]) = [Called ''7'' [''!done'']] \<and>
   concat [tag7_words] = tag7_words \<and> \<not> cut_at 8 [tag7_words] \<and>
   effects (feed (read ''7'' (\<lambda>p. Returned) Receiver) [tag7_words]) =
     [Called ''7'' [''!done'']] \<and>
   concat [take 8 tag7_words, drop 8 tag7_words] = tag7_words \<and>
   cut_at 8 [take 8 tag7_words, drop 8 tag7_words] \<and>
   \<not> cut_at 7 [take 8 tag7_words, drop 8 tag7_words] \<and>
   effects (feed (read ''7'' (\<lambda>p. Returned) Receiver)
              [take 8 tag7_words, drop 8 tag7_words]) = [Called ''7'' []] \<and>
   drained Receiver \<and> open_tag Receiver = None \<and>
   processSentence (push_sentence ''!empty'' False Receiver) = Receiver \<and>
   drained tag1_open \<and> open_tag tag1_open = Some ''1'' \<and>
   effects (processSentence (push_sentence ''!empty'' False tag1_open)) =
     [Called ''1'' [''!done'']]"
  using empty_reply[of "[take 3 tag7_sentence, drop 3 tag7_sentence]" "\<lambda>p. Returned"
          Receiver False "''1''"]
    empty_reply[of "[tag7_words]" "\<lambda>p. Returned" Receiver False "''1''"]
    empty_reply[of "[take 8 tag7_words, drop 8 tag7_words]" "\<lambda>p. Returned"
       tag1_open False "''1''"]
  by (simp add: tag7_bytes tag1_open_state drained_def run_all)

theorem empty_reply_counterexample:
  "concat [take 8 tag7_words, drop 8 tag7_words] = tag7_words \<and>
   effects (feed (read ''7'' (\<lambda>p. Returned) Receiver)
              [take 8 tag7_words, drop 8 tag7_words]) = [Called ''7'' []]"
  by (simp add: tag7_bytes run_all)

subsection \<open>Words within a chunk\<close>

lemma slice_bound_le [simp]: "n \<le> m \<Longrightarrow> slice_bound (Num (int n)) m = n"
  by (simp add: slice_bound_def)

lemma next_word_after:
  assumes "dataLength s = Num (int (length v))"
  shows "next_word s (v @ b # rest) =
    (let (w, len) = decodeLength (b # rest);
         s2 = (if w > length (b # rest)
               then s\<lparr>currentLine := [], lengthDescriptorSegment := Some (b # rest)\<rparr>
               else s\<lparr>currentLine := []\<rparr>);
         (s4, data3) = null_quirk (s2\<lparr>dataLength := len\<rparr>) (drop w (b # rest))
     in (processSentence (push_sentence (currentLine s @ decode_win1252 v) (length data3 > 0) s4),
         data3))"
  using assms by (simp add: next_word_def Let_def split: prod.splits)

subsection \<open>The fatal signal\<close>

lemma emitted_append [simp]: "emitted (a @ b) = emitted a @ emitted b"
  by (simp add: emitted_def)

lemma emitted_sendTagData [simp]: "emitted (effects (sendTagData s t)) = emitted (effects s)"
  by (simp add: sendTagData_def cleanUp_def emitted_def split: option.splits)

lemma emitted_send_if_open [simp]: "emitted (effects (send_if_open s)) = emitted (effects s)"
  by (simp add: send_if_open_def split: option.splits)

lemma emitted_classify [simp]: "emitted (effects (classify line s)) = emitted (effects s)"
  by (simp add: classify_def Let_def)

lemma finish_word_exact:
  assumes "dataLength s = Num (int (length v))" and "v \<noteq> []"
  shows "finish_word s v =
     (processSentence
        (push_sentence (currentLine s @ decode_win1252 v) True
           (s\<lparr>dataLength := Num 0, currentLine := currentLine s @ decode_win1252 v\<rparr>)))
       \<lparr>currentLine := []\<rparr>"
  using assms by (simp add: finish_word_def Let_def)

lemma loop_word_ends_chunk:
  assumes "dataLength s = Num (int (length v))" and "v \<noteq> []"
  shows "loop s v = finish_word s v"
  using assms by (simp add: loop.simps[of s v])

lemma loop_word_within_chunk:
  assumes "dataLength s = Num (int (length v))" and "v \<noteq> []"
  shows "loop s (v @ b # rest) =
     loop (fst (next_word s (v @ b # rest))) (snd (next_word s (v @ b # rest)))"
  using assms by (simp add: loop.simps[of s "v @ b # rest"] case_prod_beta)

lemma next_word_descriptor_ends_chunk:
  assumes "dataLength s = Num (int (length v))"
    and "length (b # rest) \<le> descriptor_width b"
  shows "next_word s (v @ b # rest) =
     (processSentence
        (push_sentence (currentLine s @ decode_win1252 v) False
           (s\<lparr>currentLine := [],
              lengthDescriptorSegment :=
                (if length (b # rest) < descriptor_width b then Some (b # rest)
                 else lengthDescriptorSegment s),
              dataLength := snd (decodeLength (b # rest))\<rparr>)), [])"
proof -
  obtain len where dl: "decodeLength (b # rest) = (descriptor_width b, len)"
    using decodeLength_width[of b rest] by (cases "decodeLength (b # rest)") simp
  show ?thesis
    using assms(2)
    by (simp add: next_word_after[OF assms(1)] dl null_quirk_def)
qed


lemma next_word_null_ends_chunk:
  assumes "dataLength s = Num (int (length v))"
    and "snd (decodeLength (b # rest)) = Num 1"
    and "drop (descriptor_width b) (b # rest) = [0]"
  shows "next_word s (v @ b # rest) =
     (processSentence
        (push_sentence (currentLine s @ decode_win1252 v) False
           (s\<lparr>currentLine := [], dataLength := Num 0\<rparr>)), [])"
proof -
  have dl: "decodeLength (b # rest) = (descriptor_width b, Num 1)"
    using decodeLength_width[of b rest] assms(2) by (cases "decodeLength (b # rest)") simp
  have "\<not> length (b # rest) < descriptor_width b"
    using assms(3) by (cases "length (b # rest) < descriptor_width b") simp_all
  then show ?thesis
    using assms(3)
    by (simp add: next_word_after[OF assms(1)] dl null_quirk_def)
qed

lemma next_word_more_bytes:
  assumes "dataLength s = Num (int (length v))"
    and "descriptor_width b < length (b # rest)"
    and "\<not> (snd (decodeLength (b # rest)) = Num 1 \<and>
            drop (descriptor_width b) (b # rest) = [0])"
  shows "next_word s (v @ b # rest) =
     (processSentence
        (push_sentence (currentLine s @ decode_win1252 v) True
           (s\<lparr>currentLine := [], dataLength := snd (decodeLength (b # rest))\<rparr>)),
      drop (descriptor_width b) (b # rest))"
proof -
  obtain len where dl: "decodeLength (b # rest) = (descriptor_width b, len)"
    using decodeLength_width[of b rest] by (cases "decodeLength (b # rest)") simp
  have q: "\<not> (js_seq len 1 \<and> drop (descriptor_width b) (b # rest) = [0])"
    using assms(3) dl by (cases len) auto
  have nq: "null_quirk (x\<lparr>dataLength := len\<rparr>) (drop (descriptor_width b) (b # rest)) =
            (x\<lparr>dataLength := len\<rparr>, drop (descriptor_width b) (b # rest))" for x :: receiver
    using q by (simp add: null_quirk_def)
  have more: "drop (descriptor_width b) (b # rest) \<noteq> []"
    using assms(2) by simp
  have whole: "\<not> length (b # rest) < descriptor_width b"
    using assms(2) by simp
  show ?thesis
    unfolding next_word_after[OF assms(1)] dl
    by (simp only: prod.case Let_def whole if_False nq more length_greater_0_conv
          not_False_eq_True snd_conv)
qed

lemma fatal_drop:
  assumes "drained s" and "l \<noteq> ''!empty''" and "currentReply s = ''!fatal''"
  shows "processSentence (push_sentence l False s) =
         s\<lparr>effects := effects s @ [Emitted ''fatal'']\<rparr>"
  using assms(2,3) unfolding processSentence_one[OF assms(1)] by simp

lemma fatal_marker:
  assumes "drained s" and "h \<or> currentReply s \<noteq> ''!fatal''"
  shows "processSentence (push_sentence ''!fatal'' h s) =
         (send_if_open s)\<lparr>currentPacket := currentPacket (send_if_open s) @ [''!fatal''],
                           currentReply := ''!fatal''\<rparr>"
proof (cases h)
  case True
  then show ?thesis
    unfolding processSentence_one[OF assms(1)] classify_cases Let_def
    by (simp add: send_if_open_marker)
next
  case False
  with assms(2) have "currentReply s \<noteq> ''!fatal''"
    by simp
  then show ?thesis
    unfolding processSentence_one[OF assms(1)] classify_cases Let_def
    by (simp add: send_if_open_marker)
qed

text \<open>
  Claim C5, amended. The receiver emits \<^verbatim>\<open>fatal\<close> on the socket, exactly once, for a
  sentence other than \<^verbatim>\<open>!empty\<close> that is queued with \<^verbatim>\<open>hadMore\<close> false while the reply
  classification recorded from an earlier reply marker is \<^verbatim>\<open>!fatal\<close>; the sentence is
  dropped: it is routed to no tag, it is not added to the packet and no callback is called.
  \<^verbatim>\<open>processRawData\<close> queues a word with \<^verbatim>\<open>hadMore\<close> false when the chunk that completes
  the word goes on with the next length descriptor, whole or in part, and ends there (also
  when it ends with the null byte behind a descriptor of length 1). A word whose last byte
  is the last byte of its chunk is queued with \<^verbatim>\<open>hadMore\<close> true, and so is a word with
  more bytes behind the next descriptor: for these no \<^verbatim>\<open>fatal\<close> is emitted, and the word
  is classified as any other. A \<^verbatim>\<open>!fatal\<close> sentence itself, met while the recorded
  classification is not \<^verbatim>\<open>!fatal\<close>, is a reply marker: the packet of the open tag is
  flushed, \<^verbatim>\<open>!fatal\<close> opens the next packet and becomes the recorded classification, and
  nothing is emitted.
\<close>

theorem fatal_signal:
  "(drained s \<and> lengthDescriptorSegment s = None \<and> dataLength s = Num (int (length v)) \<and>
    v \<noteq> [] \<and> currentReply s = ''!fatal'' \<and>
    currentLine s @ decode_win1252 v \<noteq> ''!empty'' \<longrightarrow>
      processRawData s v =
        (classify \<lparr>sentence = currentLine s @ decode_win1252 v, hadMore = True\<rparr>
           (s\<lparr>dataLength := Num 0, currentLine := currentLine s @ decode_win1252 v\<rparr>))
          \<lparr>currentLine := []\<rparr> \<and>
      emitted (effects (processRawData s v)) = emitted (effects s) \<and>
      (length (b # rest) \<le> descriptor_width b \<longrightarrow>
         processRawData s (v @ b # rest) =
           s\<lparr>currentLine := [],
              lengthDescriptorSegment :=
                (if length (b # rest) < descriptor_width b then Some (b # rest) else None),
              dataLength := snd (decodeLength (b # rest)),
              effects := effects s @ [Emitted ''fatal'']\<rparr>) \<and>
      (snd (decodeLength (b # rest)) = Num 1 \<and>
       drop (descriptor_width b) (b # rest) = [0] \<longrightarrow>
         processRawData s (v @ b # rest) =
           s\<lparr>currentLine := [], dataLength := Num 0,
              effects := effects s @ [Emitted ''fatal'']\<rparr>) \<and>
      (descriptor_width b < length (b # rest) \<and>
       \<not> (snd (decodeLength (b # rest)) = Num 1 \<and>
          drop (descriptor_width b) (b # rest) = [0]) \<longrightarrow>
         processRawData s (v @ b # rest) =
           loop (classify \<lparr>sentence = currentLine s @ decode_win1252 v, hadMore = True\<rparr>
                   (s\<lparr>currentLine := [], dataLength := snd (decodeLength (b # rest))\<rparr>))
                (drop (descriptor_width b) (b # rest)))) \<and>
   (drained s \<and> l \<noteq> ''!empty'' \<and> currentReply s = ''!fatal'' \<longrightarrow>
      processSentence (push_sentence l False s) =
        s\<lparr>effects := effects s @ [Emitted ''fatal'']\<rparr>) \<and>
   (drained s \<and> (h \<or> currentReply s \<noteq> ''!fatal'') \<longrightarrow>
      processSentence (push_sentence ''!fatal'' h s) =
        (send_if_open s)\<lparr>currentPacket := currentPacket (send_if_open s) @ [''!fatal''],
                          currentReply := ''!fatal''\<rparr>)"
proof (intro conjI impI)
  show "processSentence (push_sentence l False s) =
        s\<lparr>effects := effects s @ [Emitted ''fatal'']\<rparr>"
    if "drained s \<and> l \<noteq> ''!empty'' \<and> currentReply s = ''!fatal''"
    using that by (simp add: fatal_drop)
  show "processSentence (push_sentence ''!fatal'' h s) =
        (send_if_open s)\<lparr>currentPacket := currentPacket (send_if_open s) @ [''!fatal''],
                          currentReply := ''!fatal''\<rparr>"
    if "drained s \<and> (h \<or> currentReply s \<noteq> ''!fatal'')"
    using that fatal_marker[of s h] by blast
next
  let ?w = "currentLine s @ decode_win1252 v"
  assume pre: "drained s \<and> lengthDescriptorSegment s = None \<and>
    dataLength s = Num (int (length v)) \<and> v \<noteq> [] \<and> currentReply s = ''!fatal'' \<and>
    ?w \<noteq> ''!empty''"
  then have dr: "drained s" and seg: "lengthDescriptorSegment s = None"
    and dl: "dataLength s = Num (int (length v))" and v: "v \<noteq> []"
    and cr: "currentReply s = ''!fatal''" and w: "?w \<noteq> ''!empty''"
    by simp_all
  have raw: "processRawData s data = loop s data" for data
    using seg by (simp add: processRawData_def)
  have dr0: "drained (s\<lparr>dataLength := Num 0, currentLine := ?w\<rparr>)"
    using dr by simp
  show exact: "processRawData s v =
        (classify \<lparr>sentence = ?w, hadMore = True\<rparr>
           (s\<lparr>dataLength := Num 0, currentLine := ?w\<rparr>))\<lparr>currentLine := []\<rparr>"
    using w
    unfolding raw loop_word_ends_chunk[OF dl v] finish_word_exact[OF dl v]
      processSentence_one[OF dr0]
    by (simp add: Let_def)
  show "emitted (effects (processRawData s v)) = emitted (effects s)"
    unfolding exact by simp
next
  let ?w = "currentLine s @ decode_win1252 v"
  assume pre: "drained s \<and> lengthDescriptorSegment s = None \<and>
    dataLength s = Num (int (length v)) \<and> v \<noteq> [] \<and> currentReply s = ''!fatal'' \<and>
    ?w \<noteq> ''!empty''"
  then have dr: "drained s" and seg: "lengthDescriptorSegment s = None"
    and dl: "dataLength s = Num (int (length v))" and v: "v \<noteq> []"
    and cr: "currentReply s = ''!fatal''" and w: "?w \<noteq> ''!empty''"
    by simp_all
  have raw: "processRawData s data = loop s data" for data
    using seg by (simp add: processRawData_def)
  assume short: "length (b # rest) \<le> descriptor_width b"
  let ?x = "s\<lparr>currentLine := [],
              lengthDescriptorSegment :=
                (if length (b # rest) < descriptor_width b then Some (b # rest)
                 else lengthDescriptorSegment s),
              dataLength := snd (decodeLength (b # rest))\<rparr>"
  have drx: "drained ?x"
    using dr by simp
  have crx: "currentReply ?x = ''!fatal''"
    using cr by simp
  have "processRawData s (v @ b # rest) = ?x\<lparr>effects := effects ?x @ [Emitted ''fatal'']\<rparr>"
    unfolding raw loop_word_within_chunk[OF dl v]
      next_word_descriptor_ends_chunk[OF dl short] fst_conv snd_conv loop_Nil
    by (rule fatal_drop[OF drx w crx])
  then show "processRawData s (v @ b # rest) =
           s\<lparr>currentLine := [],
              lengthDescriptorSegment :=
                (if length (b # rest) < descriptor_width b then Some (b # rest) else None),
              dataLength := snd (decodeLength (b # rest)),
              effects := effects s @ [Emitted ''fatal'']\<rparr>"
    using seg by simp
next
  let ?w = "currentLine s @ decode_win1252 v"
  assume pre: "drained s \<and> lengthDescriptorSegment s = None \<and>
    dataLength s = Num (int (length v)) \<and> v \<noteq> [] \<and> currentReply s = ''!fatal'' \<and>
    ?w \<noteq> ''!empty''"
  then have dr: "drained s" and seg: "lengthDescriptorSegment s = None"
    and dl: "dataLength s = Num (int (length v))" and v: "v \<noteq> []"
    and cr: "currentReply s = ''!fatal''" and w: "?w \<noteq> ''!empty''"
    by simp_all
  have raw: "processRawData s data = loop s data" for data
    using seg by (simp add: processRawData_def)
  assume q: "snd (decodeLength (b # rest)) = Num 1 \<and>
       drop (descriptor_width b) (b # rest) = [0]"
  let ?x = "s\<lparr>currentLine := [], dataLength := Num 0\<rparr>"
  have drx: "drained ?x"
    using dr by simp
  have crx: "currentReply ?x = ''!fatal''"
    using cr by simp
  have "processRawData s (v @ b # rest) = ?x\<lparr>effects := effects ?x @ [Emitted ''fatal'']\<rparr>"
    unfolding raw loop_word_within_chunk[OF dl v]
      next_word_null_ends_chunk[OF dl conjunct1[OF q] conjunct2[OF q]] fst_conv snd_conv loop_Nil
    by (rule fatal_drop[OF drx w crx])
  then show "processRawData s (v @ b # rest) =
           s\<lparr>currentLine := [], dataLength := Num 0,
              effects := effects s @ [Emitted ''fatal'']\<rparr>"
    by simp
next
  let ?w = "currentLine s @ decode_win1252 v"
  assume pre: "drained s \<and> lengthDescriptorSegment s = None \<and>
    dataLength s = Num (int (length v)) \<and> v \<noteq> [] \<and> currentReply s = ''!fatal'' \<and>
    ?w \<noteq> ''!empty''"
  then have dr: "drained s" and seg: "lengthDescriptorSegment s = None"
    and dl: "dataLength s = Num (int (length v))" and v: "v \<noteq> []"
    and cr: "currentReply s = ''!fatal''" and w: "?w \<noteq> ''!empty''"
    by simp_all
  have raw: "processRawData s data = loop s data" for data
    using seg by (simp add: processRawData_def)
  assume m: "descriptor_width b < length (b # rest) \<and>
       \<not> (snd (decodeLength (b # rest)) = Num 1 \<and>
          drop (descriptor_width b) (b # rest) = [0])"
  let ?x = "s\<lparr>currentLine := [], dataLength := snd (decodeLength (b # rest))\<rparr>"
  have drx: "drained ?x"
    using dr by simp
  show "processRawData s (v @ b # rest) =
           loop (classify \<lparr>sentence = ?w, hadMore = True\<rparr> ?x)
                (drop (descriptor_width b) (b # rest))"
    using w
    unfolding raw loop_word_within_chunk[OF dl v]
      next_word_more_bytes[OF dl conjunct1[OF m] conjunct2[OF m]] fst_conv snd_conv
      processSentence_one[OF drx]
    by (simp add: Let_def)
qed


lemma after_fatal_marker_state:
  "after_fatal_marker =
     Receiver\<lparr>dataLength := Num 3, currentReply := ''!fatal'', currentPacket := [''!fatal'']\<rparr>"
  by (simp add: after_fatal_marker_def encodeWord_def encodeLength_def bytes_of_def run_all)

theorem fatal_signal_witness:
  "drained after_fatal_marker \<and> lengthDescriptorSegment after_fatal_marker = None \<and>
   dataLength after_fatal_marker = Num (int (length [98, 121, 101 :: byte])) \<and>
   [98, 121, 101 :: byte] \<noteq> [] \<and> currentReply after_fatal_marker = ''!fatal'' \<and>
   currentLine after_fatal_marker @ decode_win1252 [98, 121, 101] = ''bye'' \<and>
   ''bye'' \<noteq> ''!empty'' \<and>
   effects (processRawData after_fatal_marker [98, 121, 101]) = [] \<and>
   currentPacket (processRawData after_fatal_marker [98, 121, 101]) = [''!fatal'', ''bye''] \<and>
   effects (feed after_fatal_marker [[98, 121, 101], [0]]) = [] \<and>
   length [0 :: byte] \<le> descriptor_width 0 \<and>
   effects (processRawData after_fatal_marker ([98, 121, 101] @ [0])) = [Emitted ''fatal''] \<and>
   currentPacket (processRawData after_fatal_marker ([98, 121, 101] @ [0])) = [''!fatal''] \<and>
   length [0x80 :: byte] \<le> descriptor_width 0x80 \<and>
   effects (processRawData after_fatal_marker ([98, 121, 101] @ [0x80])) = [Emitted ''fatal''] \<and>
   snd (decodeLength [1, 0]) = Num 1 \<and> drop (descriptor_width 1) [1, 0 :: byte] = [0] \<and>
   effects (processRawData after_fatal_marker ([98, 121, 101] @ [1, 0])) = [Emitted ''fatal''] \<and>
   descriptor_width 0 < length [0, 0 :: byte] \<and>
   effects (processRawData after_fatal_marker ([98, 121, 101] @ [0, 0])) = [] \<and>
   drained Receiver \<and> currentReply Receiver \<noteq> ''!fatal'' \<and>
   processSentence (push_sentence ''!fatal'' False Receiver) =
     Receiver\<lparr>currentPacket := [''!fatal''], currentReply := ''!fatal''\<rparr>"
  using fatal_signal[of after_fatal_marker "[98, 121, 101]" 0 "[]" "''bye''" False]
    fatal_signal[of after_fatal_marker "[98, 121, 101]" "0x80" "[]" "''bye''" False]
    fatal_signal[of after_fatal_marker "[98, 121, 101]" 1 "[0]" "''bye''" False]
    fatal_signal[of after_fatal_marker "[98, 121, 101]" 0 "[0]" "''bye''" False]
    fatal_signal[of Receiver "[]" 0 "[]" "''bye''" False]
  by (simp add: after_fatal_marker_state drained_def descriptor_width_def run_all)

lemma fatal_stream_bytes:
  "encodeWords [''!fatal'', []] = [6, 33, 102, 97, 116, 97, 108, 0]"
  "encodeWords [''!fatal'', ''bye'', []] = [6, 33, 102, 97, 116, 97, 108, 3, 98, 121, 101, 0]"
  by (simp_all add: encodeWords_def encodeWord_def encodeLength_def bytes_of_def)

theorem fatal_sentence_counterexample:
  "effects (processRawData Receiver (encodeWords [''!fatal'', []])) = [] \<and>
   currentPacket (processRawData Receiver (encodeWords [''!fatal'', []])) = [''!fatal'']"
  by (simp add: fatal_stream_bytes run_all)

lemma fatal_with_reason:
  "effects (processRawData Receiver (encodeWords [''!fatal'', ''bye'', []])) = [Emitted ''fatal'']"
  by (simp add: fatal_stream_bytes run_all)

subsection \<open>The null byte behind a descriptor of length one\<close>

text \<open>
  Claim C10. Behind a descriptor that declares the length 1, a null byte is taken as the
  end of a sentence only when it is all that is left of the chunk: the counter goes to 0
  and the byte is dropped. This holds where no word is in progress and where the
  descriptor follows a completed word. When more bytes follow in the chunk, the counter
  stays at 1 and the null byte stays in the buffer, to be read as the one-byte payload of a
  word; the same happens when the null byte opens the next chunk. So the same bytes give a
  terminator or a word, by where the chunk ends.
\<close>

theorem null_byte_terminator:
  "read_length s (1 # 0 # rest) =
     (if rest = [] then (s\<lparr>dataLength := Num 0\<rparr>, []) else (s\<lparr>dataLength := Num 1\<rparr>, 0 # rest)) \<and>
   (\<not> js_gt (dataLength s) 0 \<longrightarrow> loop s [1, 0] = s\<lparr>dataLength := Num 0\<rparr>) \<and>
   (dataLength s = Num (int (length v)) \<longrightarrow>
      next_word s (v @ 1 # 0 # rest) =
        (processSentence
           (push_sentence (currentLine s @ decode_win1252 v) (rest \<noteq> [])
              (s\<lparr>currentLine := [], dataLength := Num (if rest = [] then 0 else 1)\<rparr>)),
         if rest = [] then [] else 0 # rest)) \<and>
   (dataLength s = Num 1 \<and> rest \<noteq> [] \<longrightarrow>
      (\<exists>h s2 d. next_word s (0 # rest) =
         (processSentence (push_sentence (currentLine s @ [CHR 0x00]) h s2), d))) \<and>
   (dataLength s = Num 1 \<longrightarrow>
      loop s [0] =
        (processSentence
           (push_sentence (currentLine s @ [CHR 0x00]) True
              (s\<lparr>dataLength := Num 0, currentLine := currentLine s @ [CHR 0x00]\<rparr>)))
          \<lparr>currentLine := []\<rparr>)"
proof (intro conjI impI)
  show rl: "read_length s (1 # 0 # rest) =
     (if rest = [] then (s\<lparr>dataLength := Num 0\<rparr>, []) else (s\<lparr>dataLength := Num 1\<rparr>, 0 # rest))"
    by (simp add: read_length_def decodeLength_one_byte null_quirk_def)
  show "loop s [1, 0] = s\<lparr>dataLength := Num 0\<rparr>" if "\<not> js_gt (dataLength s) 0"
    using that
    by (simp add: loop.simps[of s "[1, 0]"] read_length_def decodeLength_one_byte null_quirk_def)
  show "next_word s (v @ 1 # 0 # rest) =
        (processSentence
           (push_sentence (currentLine s @ decode_win1252 v) (rest \<noteq> [])
              (s\<lparr>currentLine := [], dataLength := Num (if rest = [] then 0 else 1)\<rparr>)),
         if rest = [] then [] else 0 # rest)"
    if "dataLength s = Num (int (length v))"
    using that
    by (simp add: next_word_after decodeLength_one_byte null_quirk_def)
  show "\<exists>h s2 d. next_word s (0 # rest) =
         (processSentence (push_sentence (currentLine s @ [CHR 0x00]) h s2), d)"
    if "dataLength s = Num 1 \<and> rest \<noteq> []"
  proof -
    from that obtain b rest' where r: "rest = b # rest'"
      by (cases rest) auto
    have d: "dataLength s = Num (int (length [0::byte]))"
      using that by simp
    have "decode_win1252 [0::byte] = [CHR 0x00]"
      by (simp add: decode_win1252_def ascii_table)
    then show ?thesis
      using next_word_after[OF d, of b rest'] r
      by (auto simp: Let_def split: prod.splits)
  qed
  show "loop s [0] =
        (processSentence
           (push_sentence (currentLine s @ [CHR 0x00]) True
              (s\<lparr>dataLength := Num 0, currentLine := currentLine s @ [CHR 0x00]\<rparr>)))
          \<lparr>currentLine := []\<rparr>"
    if "dataLength s = Num 1"
    using that
    by (simp add: loop.simps[of s "[0]"] finish_word_def Let_def decode_win1252_def ascii_table)
qed

theorem null_byte_terminator_witness:
  "\<not> js_gt (dataLength Receiver) 0 \<and>
   loop Receiver [1, 0] = Receiver \<and>
   currentPacket (processRawData Receiver [1, 0]) = [] \<and>
   currentPacket (processRawData Receiver [1, 0, 0]) = [[CHR 0x00]] \<and>
   dataLength (processRawData Receiver [1]) = Num 1 \<and>
   currentPacket (feed Receiver [[1], [0]]) = [[CHR 0x00]] \<and>
   dataLength (Receiver\<lparr>dataLength := Num 1\<rparr>) = Num (int (length [65 :: byte])) \<and>
   snd (next_word (Receiver\<lparr>dataLength := Num 1\<rparr>) ([65] @ 1 # 0 # [])) = [] \<and>
   snd (next_word (Receiver\<lparr>dataLength := Num 1\<rparr>) ([65] @ 1 # 0 # [66])) = [0, 66] \<and>
   (\<exists>h s2 d. next_word (Receiver\<lparr>dataLength := Num 1\<rparr>) (0 # [66]) =
         (processSentence (push_sentence (currentLine (Receiver\<lparr>dataLength := Num 1\<rparr>) @ [CHR 0x00]) h s2), d))"
  using null_byte_terminator[of Receiver "[]" "[]"]
    null_byte_terminator[of "Receiver\<lparr>dataLength := Num 1\<rparr>" "[]" "[65]"]
    null_byte_terminator[of "Receiver\<lparr>dataLength := Num 1\<rparr>" "[66]" "[65]"]
  by (simp add: run_all)

subsection \<open>Chunk boundaries inside a word\<close>

lemma drop_past:
  assumes "w \<le> length (x # rest)"
  shows "drop w (x # rest @ b) = drop w (x # rest) @ b"
  using assms by (simp add: drop_Cons')

lemma decode_win1252_append [simp]:
  "decode_win1252 (a @ b) = decode_win1252 a @ decode_win1252 b"
  by (simp add: decode_win1252_def)

lemma decodeLength_append:
  assumes "descriptor_width x \<le> length (x # rest)"
  shows "decodeLength (x # rest @ b) = decodeLength (x # rest)"
  using assms
  by (auto simp: decodeLength_def descriptor_width_def Let_def byte_class at_index_def
        nth_append nth_Cons' split: if_splits)


lemma null_quirk_rest:
  assumes "snd (null_quirk s d) \<noteq> []"
  shows "null_quirk s (d @ b) = (s, d @ b)" and "null_quirk s d = (s, d)"
proof -
  have no: "\<not> (js_seq (dataLength s) 1 \<and> d = [0])"
    using assms by (auto simp: null_quirk_def)
  then show "null_quirk s d = (s, d)"
    by (simp add: null_quirk_def)
  have "d \<noteq> []"
    using assms no by (simp add: null_quirk_def)
  with no have "\<not> (js_seq (dataLength s) 1 \<and> d @ b = [0])"
    by (cases d) auto
  then show "null_quirk s (d @ b) = (s, d @ b)"
    by (simp add: null_quirk_def)
qed

lemma read_length_append:
  assumes "snd (read_length s a) \<noteq> []"
  shows "read_length s (a @ b) = (fst (read_length s a), snd (read_length s a) @ b)"
proof (cases a)
  case Nil
  have "decodeLength [] = (1, Undefined)"
    by (simp add: decodeLength_def Let_def at_index_def js_band_def)
  then have "snd (read_length s []) = []"
    by (simp add: read_length_def null_quirk_def)
  with assms Nil show ?thesis
    by simp
next
  case (Cons x rest)
  obtain len where dl: "decodeLength (x # rest) = (descriptor_width x, len)"
    using decodeLength_width[of x rest] by (cases "decodeLength (x # rest)") simp
  let ?d = "drop (descriptor_width x) (x # rest)"
  have rl: "read_length s a = null_quirk (s\<lparr>dataLength := len\<rparr>) ?d"
    using Cons dl by (simp add: read_length_def)
  with assms have more: "snd (null_quirk (s\<lparr>dataLength := len\<rparr>) ?d) \<noteq> []"
    by simp
  then have "?d \<noteq> []"
    by (auto simp: null_quirk_def split: if_splits)
  then have whole: "descriptor_width x \<le> length (x # rest)"
    by simp
  have dr: "drop (descriptor_width x) (x # rest @ b) = ?d @ b"
    using whole by (simp add: drop_Cons')
  have "read_length s (a @ b) = null_quirk (s\<lparr>dataLength := len\<rparr>) (?d @ b)"
    using Cons dl decodeLength_append[OF whole, of b]
    by (simp add: read_length_def dr)
  then show ?thesis
    unfolding rl null_quirk_rest[OF more] by simp
qed

lemma read_length_keeps:
  "currentLine (fst (read_length s a)) = currentLine s"
  "lengthDescriptorSegment (fst (read_length s a)) = lengthDescriptorSegment s"
  by (simp_all add: read_length_def null_quirk_def Let_def split: prod.splits)


lemma next_word_append:
  assumes dl: "dataLength s = Num (int (length v))"
    and more: "snd (next_word s (v @ x # rest)) \<noteq> []"
  shows "next_word s (v @ x # rest @ b) =
     (fst (next_word s (v @ x # rest)), snd (next_word s (v @ x # rest)) @ b)"
    and "currentLine (fst (next_word s (v @ x # rest))) = []"
    and "lengthDescriptorSegment (fst (next_word s (v @ x # rest))) = lengthDescriptorSegment s"
proof -
  obtain len where d: "decodeLength (x # rest) = (descriptor_width x, len)"
    using decodeLength_width[of x rest] by (cases "decodeLength (x # rest)") simp
  let ?line = "currentLine s @ decode_win1252 v"
  let ?s2 = "if length (x # rest) < descriptor_width x
             then s\<lparr>currentLine := [], lengthDescriptorSegment := Some (x # rest)\<rparr>
             else s\<lparr>currentLine := []\<rparr>"
  let ?d2 = "drop (descriptor_width x) (x # rest)"
  let ?q = "null_quirk (?s2\<lparr>dataLength := len\<rparr>) ?d2"
  have nw: "next_word s (v @ x # rest) =
            (processSentence (push_sentence ?line (length (snd ?q) > 0) (fst ?q)), snd ?q)"
    unfolding next_word_after[OF dl] d by (simp add: case_prod_beta Let_def)
  then have m: "snd ?q \<noteq> []"
    using more by simp
  note nq = null_quirk_rest[OF m]
  have "?d2 \<noteq> []"
    using m unfolding nq(2) by simp
  then have whole: "descriptor_width x \<le> length (x # rest)"
    by simp
  then have s2: "?s2 = s\<lparr>currentLine := []\<rparr>"
    by simp
  have first: "next_word s (v @ x # rest) =
     (processSentence (push_sentence ?line True (s\<lparr>currentLine := [], dataLength := len\<rparr>)), ?d2)"
    unfolding nw nq(2) using \<open>?d2 \<noteq> []\<close> s2 by simp
  have d': "decodeLength (x # rest @ b) = (descriptor_width x, len)"
    using decodeLength_append[OF whole, of b] d by simp
  have wide: "\<not> length (x # rest @ b) < descriptor_width x"
    using whole by simp
  have "next_word s (v @ x # rest @ b) =
     (let (s4, data3) = null_quirk (s\<lparr>currentLine := [], dataLength := len\<rparr>) (?d2 @ b)
      in (processSentence (push_sentence ?line (length data3 > 0) s4), data3))"
    unfolding next_word_after[OF dl] d' drop_past[OF whole]
    using wide by (simp add: Let_def drop_past[OF whole] del: length_Cons length_append)
  also have "null_quirk (s\<lparr>currentLine := [], dataLength := len\<rparr>) (?d2 @ b) =
             (s\<lparr>currentLine := [], dataLength := len\<rparr>, ?d2 @ b)"
    using nq(1)[of b] s2 by simp
  finally have second: "next_word s (v @ x # rest @ b) =
     (processSentence (push_sentence ?line True (s\<lparr>currentLine := [], dataLength := len\<rparr>)),
      ?d2 @ b)"
    using \<open>?d2 \<noteq> []\<close> by simp
  show "next_word s (v @ x # rest @ b) =
     (fst (next_word s (v @ x # rest)), snd (next_word s (v @ x # rest)) @ b)"
    unfolding first second by simp
  show "currentLine (fst (next_word s (v @ x # rest))) = []"
    unfolding first by (simp add: push_sentence_def)
  show "lengthDescriptorSegment (fst (next_word s (v @ x # rest))) = lengthDescriptorSegment s"
    unfolding first by (simp add: push_sentence_def)
qed


lemma next_word_line [simp]: "currentLine (fst (next_word s data)) = []"
  by (simp add: next_word_def null_quirk_def push_sentence_def Let_def case_prod_beta)

lemma finish_word_part:
  assumes "dataLength s = Num (int n)" and "length a < n"
  shows "finish_word s a =
     s\<lparr>dataLength := Num (int (n - length a)), currentLine := currentLine s @ decode_win1252 a\<rparr>"
  using assms by (simp add: finish_word_def Let_def of_nat_diff)

lemma finish_word_whole_line:
  assumes "dataLength s = Num (int (length a))"
  shows "currentLine (finish_word s a) = []"
  using assms by (simp add: finish_word_def Let_def)

lemma next_word_Num:
  assumes "dataLength s = Num (int n)" and "n \<le> length data"
  shows "next_word s data =
    (let d = drop n data;
         (w, len) = decodeLength d;
         s2 = (if w > length d
               then s\<lparr>currentLine := [], lengthDescriptorSegment := Some d\<rparr>
               else s\<lparr>currentLine := []\<rparr>);
         (s4, data3) = null_quirk (s2\<lparr>dataLength := len\<rparr>) (drop w d)
     in (processSentence
           (push_sentence (currentLine s @ decode_win1252 (take n data)) (length data3 > 0) s4),
         data3))"
  using assms by (simp add: next_word_def Let_def split: prod.splits)

lemma finish_word_cases:
  assumes "dataLength s = Num (int n)" and "length d \<le> n" and "d \<noteq> []"
  shows "finish_word s d =
     (if length d = n then
        (processSentence
           (push_sentence (currentLine s @ decode_win1252 d) True
              (s\<lparr>dataLength := Num 0, currentLine := currentLine s @ decode_win1252 d\<rparr>)))
          \<lparr>currentLine := []\<rparr>
      else s\<lparr>dataLength := Num (int (n - length d)),
              currentLine := currentLine s @ decode_win1252 d\<rparr>)"
  using assms by (auto simp: finish_word_def Let_def of_nat_diff)

lemma loop_payload_split:
  assumes dl: "dataLength s = Num (int n)" and short: "length a < n" and a: "a \<noteq> []"
  shows "loop s (a @ b) = loop (finish_word s a) b"
proof (cases "b = []")
  case True
  then show ?thesis
    using assms by (simp add: loop.simps[of s a])
next
  case b: False
  let ?s' = "finish_word s a"
  have fw: "?s' = s\<lparr>dataLength := Num (int (n - length a)),
                     currentLine := currentLine s @ decode_win1252 a\<rparr>"
    by (rule finish_word_part[OF dl short])
  have dl': "dataLength ?s' = Num (int (n - length a))"
    unfolding fw by simp
  show ?thesis
  proof (cases "length (a @ b) \<le> n")
    case True
    have "loop s (a @ b) = finish_word s (a @ b)"
      using True dl a short by (simp add: loop.simps[of s "a @ b"])
    moreover have "loop ?s' b = finish_word ?s' b"
      using True dl' b short by (simp add: loop.simps[of ?s' b])
    moreover have "finish_word s (a @ b) = finish_word ?s' b"
    proof -
      have ab: "a @ b \<noteq> []" "length b \<le> n - length a"
        using a True by simp_all
      have eq: "(length (a @ b) = n) = (length b = n - length a)"
        "n - length (a @ b) = n - length a - length b"
        using short by auto
      show ?thesis
        unfolding finish_word_cases[OF dl True ab(1)] finish_word_cases[OF dl' ab(2) b] eq
        unfolding fw by simp
    qed
    ultimately show ?thesis
      by simp
  next
    case False
    have "loop s (a @ b) = (case next_word s (a @ b) of (s', d) \<Rightarrow> loop s' d)"
      using False dl a short by (simp add: loop.simps[of s "a @ b"])
    moreover have "loop ?s' b = (case next_word ?s' b of (s', d) \<Rightarrow> loop s' d)"
      using False dl' b short by (simp add: loop.simps[of ?s' b])
    moreover have "next_word s (a @ b) = next_word ?s' b"
    proof -
      have n: "n \<le> length (a @ b)" "n - length a \<le> length b"
        using False by simp_all
      have cut: "take n (a @ b) = a @ take (n - length a) b"
        "drop n (a @ b) = drop (n - length a) b"
        using short by simp_all
      have same: "(s\<lparr>dataLength := x, currentLine := y\<rparr>)\<lparr>currentLine := []\<rparr>\<lparr>dataLength := len\<rparr> =
                  (s\<lparr>currentLine := []\<rparr>)\<lparr>dataLength := len\<rparr>"
        "(s\<lparr>dataLength := x, currentLine := y\<rparr>)
            \<lparr>currentLine := [], lengthDescriptorSegment := g\<rparr>\<lparr>dataLength := len\<rparr> =
         (s\<lparr>currentLine := [], lengthDescriptorSegment := g\<rparr>)\<lparr>dataLength := len\<rparr>"
        for x y len g
        by (cases s; simp)+
      show ?thesis
        unfolding next_word_Num[OF dl n(1)] next_word_Num[OF dl' n(2)] cut
        unfolding fw
        by (simp add: Let_def same if_distrib[of "\<lambda>r. r\<lparr>dataLength := _\<rparr>"]
              split: prod.splits cong: if_cong)
    qed
    ultimately show ?thesis
      by simp
  qed
qed


lemma js_gt_Num: "js_gt x 0 \<Longrightarrow> \<exists>n. x = Num (int n) \<and> 0 < n"
proof (cases x)
  case (Num z)
  assume "js_gt x 0"
  with Num have "x = Num (int (nat z)) \<and> 0 < nat z"
    by simp
  then show ?thesis by blast
qed simp_all

lemma loop_append:
  assumes "line_consistent s" and "lengthDescriptorSegment s = None" and "mid_word (loop s a)"
  shows "loop (loop s a) b = loop s (a @ b) \<and> lengthDescriptorSegment (loop s a) = None"
  using assms
proof (induction s a rule: loop.induct)
  case (1 s data)
  show ?case
  proof (cases "0 < length data")
    case False
    then show ?thesis
      using "1.prems" by simp
  next
    case nonempty: True
    show ?thesis
    proof (cases "js_gt (dataLength s) 0")
      case word: True
      then obtain n where dl: "dataLength s = Num (int n)" and n: "0 < n"
        using js_gt_Num by blast
      show ?thesis
      proof (cases "length data \<le> n")
        case True
        then have fin: "loop s data = finish_word s data"
          using nonempty dl n by (simp add: loop.simps[of s data])
        have "length data \<noteq> n"
        proof
          assume "length data = n"
          then have "currentLine (finish_word s data) = []"
            using dl by (intro finish_word_whole_line) simp
          with "1.prems"(3) fin show False
            by (simp add: mid_word_def)
        qed
        with True have short: "length data < n"
          by simp
        have "loop s (data @ b) = loop (finish_word s data) b"
          using nonempty by (intro loop_payload_split[OF dl short]) auto
        moreover have "lengthDescriptorSegment (finish_word s data) = None"
          unfolding finish_word_part[OF dl short] using "1.prems"(2) by simp
        ultimately show ?thesis
          unfolding fin by simp
      next
        case False
        obtain s' data' where nw: "next_word s data = (s', data')"
          by (cases "next_word s data")
        have step: "loop s data = loop s' data'"
          using nonempty dl n False nw by (simp add: loop.simps[of s data])
        have line: "currentLine s' = []"
          using next_word_line[of s data] nw by simp
        have more: "data' \<noteq> []"
        proof
          assume "data' = []"
          with step line "1.prems"(3) show False
            by (simp add: mid_word_def)
        qed
        define v where "v = take n data"
        have "drop n data \<noteq> []"
          using False by simp
        then obtain x rest where split: "drop n data = x # rest"
          by (cases "drop n data") auto
        have data: "data = v @ x # rest"
          using split append_take_drop_id[of n data] by (simp add: v_def)
        have dlv: "dataLength s = Num (int (length v))"
          using dl False by (simp add: v_def)
        have more': "snd (next_word s (v @ x # rest)) \<noteq> []"
          using more nw unfolding data by simp
        have nw': "next_word s (data @ b) = (s', data' @ b)"
          using next_word_append(1)[OF dlv more', of b] nw unfolding data by simp
        have seg: "lengthDescriptorSegment s' = None"
          using next_word_append(3)[OF dlv more'] nw "1.prems"(2) unfolding data by simp
        have "loop (loop s' data') b = loop s' (data' @ b) \<and>
              lengthDescriptorSegment (loop s' data') = None"
          using "1.IH"(1)[of s' data'] nonempty word dl False nw line seg "1.prems"(3) step
          by (simp add: line_consistent_def)
        moreover have "loop s (data @ b) = loop s' (data' @ b)"
          using nonempty dl n False nw' by (simp add: loop.simps[of s "data @ b"])
        ultimately show ?thesis
          unfolding step by simp
      qed
    next
      case idle: False
      obtain s' data' where rl: "read_length s data = (s', data')"
        by (cases "read_length s data")
      have step: "loop s data = loop s' data'"
        using nonempty idle rl by (simp add: loop.simps[of s data])
      have "currentLine s = []"
        using "1.prems"(1) idle by (simp add: line_consistent_def)
      then have line: "currentLine s' = []"
        using read_length_keeps(1)[of s data] rl by simp
      have seg: "lengthDescriptorSegment s' = None"
        using read_length_keeps(2)[of s data] rl "1.prems"(2) by simp
      have more: "data' \<noteq> []"
      proof
        assume "data' = []"
        with step line "1.prems"(3) show False
          by (simp add: mid_word_def)
      qed
      have rl': "read_length s (data @ b) = (s', data' @ b)"
        using read_length_append[of s data b] more rl by simp
      have "loop (loop s' data') b = loop s' (data' @ b) \<and>
            lengthDescriptorSegment (loop s' data') = None"
        using "1.IH"(2)[of s' data'] nonempty idle rl line seg "1.prems"(3) step
        by (simp add: line_consistent_def)
      moreover have "loop s (data @ b) = loop s' (data' @ b)"
        using nonempty idle rl' by (simp add: loop.simps[of s "data @ b"])
      ultimately show ?thesis
        unfolding step by simp
    qed
  qed
qed


lemma mid_word_consistent: "mid_word s \<Longrightarrow> line_consistent s"
  by (simp add: mid_word_def line_consistent_def)

text \<open>
  Claim C2, amended. Splitting a byte sequence into chunks gives the same receiver as
  feeding it as one chunk, and so the same calls of the callbacks in the same order, when
  every chunk boundary lies inside the bytes of a word: the receiver has read at least one
  byte of the word and is owed at least one more. This holds from every receiver that keeps
  no part of a length descriptor and no line without a word in progress, a new receiver
  among them. A boundary elsewhere can change what is dispatched: the flag \<^verbatim>\<open>hadMore\<close> of
  a word, which the flush at the end of a chunk and the fatal signal read, depends on where
  the chunk ends.
\<close>

theorem split_inside_words:
  assumes "line_consistent s" and "lengthDescriptorSegment s = None"
    and "payload_cuts s chunks"
  shows "feed s chunks = processRawData s (concat chunks)"
  using assms
proof (induction s chunks rule: payload_cuts.induct)
  case (1 s)
  then show ?case
    by (simp add: feed_def processRawData_def)
next
  case (2 s c)
  then show ?case
    by (simp add: feed_def)
next
  case (3 s c c' cs)
  let ?t = "processRawData s c"
  have t: "?t = loop s c"
    using "3.prems"(2) by (simp add: processRawData_def)
  have mid: "mid_word (loop s c)" and cuts: "payload_cuts ?t (c' # cs)"
    using "3.prems"(3) t by simp_all
  note app = loop_append[OF "3.prems"(1,2) mid]
  have seg: "lengthDescriptorSegment ?t = None"
    using app[of "[]"] t by simp
  have "feed ?t (c' # cs) = processRawData ?t (concat (c' # cs))"
    using mid cuts seg t by (intro "3.IH") (simp_all add: mid_word_consistent)
  also have "\<dots> = loop (loop s c) (concat (c' # cs))"
    using seg t by (simp add: processRawData_def)
  also have "\<dots> = loop s (c @ concat (c' # cs))"
    using app[of "concat (c' # cs)"] by simp
  also have "\<dots> = processRawData s (concat (c # c' # cs))"
    using "3.prems"(2) by (simp add: processRawData_def)
  finally show ?case
    by (simp add: feed_def)
qed

lemma done_sentence_bytes:
  "done_sentence = [5, 33, 100, 111, 110, 101, 6, 46, 116, 97, 103, 61, 49, 0]"
  by (simp add: done_sentence_def encodeWords_def encodeWord_def encodeLength_def bytes_of_def)

theorem split_inside_words_witness:
  "line_consistent (read ''1'' (\<lambda>p. Returned) Receiver) \<and>
   lengthDescriptorSegment (read ''1'' (\<lambda>p. Returned) Receiver) = None \<and>
   payload_cuts (read ''1'' (\<lambda>p. Returned) Receiver)
     [take 3 tag1_stream, take 6 (drop 3 tag1_stream), drop 9 tag1_stream] \<and>
   concat [take 3 tag1_stream, take 6 (drop 3 tag1_stream), drop 9 tag1_stream] = tag1_stream \<and>
   feed (read ''1'' (\<lambda>p. Returned) Receiver)
     [take 3 tag1_stream, take 6 (drop 3 tag1_stream), drop 9 tag1_stream] =
   processRawData (read ''1'' (\<lambda>p. Returned) Receiver) tag1_stream \<and>
   effects (processRawData (read ''1'' (\<lambda>p. Returned) Receiver) tag1_stream) =
     [Called ''1'' [], Called ''1'' [''!re'', ''name=alice'']]"
  using split_inside_words[of "read ''1'' (\<lambda>p. Returned) Receiver"
          "[take 3 tag1_stream, take 6 (drop 3 tag1_stream), drop 9 tag1_stream]"]
  by (simp add: line_consistent_def mid_word_def tag1_stream_bytes run_all)

theorem split_counterexample:
  "concat [take 13 done_sentence, drop 13 done_sentence] = done_sentence \<and>
   effects (processRawData (read ''1'' (\<lambda>p. Returned) Receiver) done_sentence) =
     [Called ''1'' [''!done'']] \<and>
   effects (feed (read ''1'' (\<lambda>p. Returned) Receiver)
              [take 13 done_sentence, drop 13 done_sentence]) = []"
  by (simp add: done_sentence_bytes run_all)

end
